theory Spec2Isabelle
  imports
    Complex_Main
    "HOL-Library.Word"
    "HOL-Library.Multiset"
    "HOL-Library.Log_Nat"
    "HOL-Library.Signed_Division"
begin

unbundle bit_operations_syntax

section \<open>Numeric conventions and basic data\<close>

text \<open>
  The graph viewport of \<^verbatim>\<open>utility/x11plot.h\<close> computes with C++ \<^verbatim>\<open>double\<close> and
  \<^verbatim>\<open>int\<close>. Here a \<^verbatim>\<open>double\<close> that takes part in arithmetic is a \<open>real\<close>, without
  overflow, infinities or NaN. An \<^verbatim>\<open>int\<close> pixel coordinate is an \<open>int\<close>, and the
  conversion of a \<^verbatim>\<open>double\<close> to \<^verbatim>\<open>int\<close> discards the fractional part as C++ does. A
  data value read from a series may be infinite or NaN; the code tests it with
  \<^verbatim>\<open>std::isfinite\<close> before any arithmetic, so a data value is a \<open>datum\<close>, and
  \<open>NonFinite\<close> stands for the values that fail the test.
\<close>

type_synonym double = real

datatype datum = Finite double | NonFinite

definition to_int :: "double \<Rightarrow> int" where
  \<comment> \<open>C++ conversion of a double to int: the fractional part is discarded\<close>
  "to_int v = (if 0 \<le> v then \<lfloor>v\<rfloor> else \<lceil>v\<rceil>)"

text \<open>
  The result of an operation on \<^verbatim>\<open>double\<close> is the exact result rounded to the nearest
  number with 53 significant bits, a tie going to the one whose last bit is 0 (IEEE 754
  binary64, the default rounding). \<open>fl\<close> is that rounding: \<open>expo x\<close> is the exponent
  \<open>e\<close> with \<open>2\<^sup>e \<le> \<bar>x\<bar> < 2\<^sup>e\<^sup>+\<^sup>1\<close>, and \<open>x\<close> is rounded to a multiple of
  \<open>2\<^sup>e\<^sup>-\<^sup>5\<^sup>2\<close>. The exponent has no bounds here, so \<open>fl\<close> is the rounding of
  \<^verbatim>\<open>double\<close> between the smallest normal number \<open>2\<^sup>-\<^sup>1\<^sup>0\<^sup>2\<^sup>2\<close> and the largest finite
  one.

  The rounding is written out in the two coordinate transformations \<open>coord\<close> and
  \<open>icoord\<close>, one \<open>fl\<close> for each operation of the C++ expression: the round trip from a
  pixel to a data value and back is decided by errors of that size. Everywhere else
  the arithmetic of the model is exact.
\<close>

definition pow2 :: "int \<Rightarrow> real" where
  "pow2 e = (if 0 \<le> e then 2 ^ nat e else 1 / 2 ^ nat (- e))"

definition expo :: "real \<Rightarrow> int" where
  \<comment> \<open>\<open>bitlen n\<close> is the number of binary digits of \<open>n\<close>\<close>
  "expo x = (if 1 \<le> \<bar>x\<bar> then bitlen \<lfloor>\<bar>x\<bar>\<rfloor> - 1 else - bitlen (\<lceil>1 / \<bar>x\<bar>\<rceil> - 1))"

definition round_even :: "real \<Rightarrow> int" where
  \<comment> \<open>the nearest integer, the even one of the two when \<open>x\<close> is half way\<close>
  "round_even x =
     (let n = \<lfloor>x\<rfloor>; r = x - of_int n
      in if r < 1 / 2 then n else if 1 / 2 < r then n + 1 else if even n then n else n + 1)"

definition fl :: "real \<Rightarrow> double" where
  "fl x = (if x = 0 then 0
           else of_int (round_even (x / pow2 (expo x - 52))) * pow2 (expo x - 52))"

definition dne :: "'a \<Rightarrow> 'a \<Rightarrow> bool" where
  \<comment> \<open>Modelled from the spec: \<^verbatim>\<open>dne\<close> is declared in \<^verbatim>\<open>utility.h\<close>, which is not among the
      sources. The spec calls the comparison of saved configurations structural, so
      \<^verbatim>\<open>dne(a, b)\<close> is taken to be "a differs from b".\<close>
  "dne a b = (a \<noteq> b)"

text \<open>\<^verbatim>\<open>PointT<Type>\<close>: indexed by a bool, \<^verbatim>\<open>p[false]\<close> is x and \<^verbatim>\<open>p[true]\<close> is y.\<close>

record 'a PointT =
  xc :: 'a
  yc :: 'a

type_synonym Point = "int PointT"
type_synonym dPoint = "double PointT"


text \<open>
  A row of a \<^verbatim>\<open>Range\<close> (\<^verbatim>\<open>std::vector<std::vector<double>>\<close>) or of an \<^verbatim>\<open>iBounds\<close> holds
  three numbers: index 0 the low end, index 1 the high end, index 2 the width. Both
  tables have two rows, row \<^verbatim>\<open>false\<close> for the x axis and row \<^verbatim>\<open>true\<close> for the y axis.
\<close>

record 'a row3 =
  lo :: 'a
  hi :: 'a
  wd :: 'a

type_synonym Range = "double row3 \<times> double row3"
type_synonym iBounds = "int row3 \<times> int row3"

definition row :: "'a \<times> 'a \<Rightarrow> bool \<Rightarrow> 'a" where
  "row t ax = (if ax then snd t else fst t)"

definition set_row :: "'a \<times> 'a \<Rightarrow> bool \<Rightarrow> 'a \<Rightarrow> 'a \<times> 'a" where
  "set_row t ax v = (if ax then (fst t, v) else (v, snd t))"

section \<open>Toggle controls\<close>

text \<open>
  \<^verbatim>\<open>struct Radio\<close>. The closures of \<^verbatim>\<open>Actions\<close> and the geometry behind \<^verbatim>\<open>contains\<close>
  belong to the window, so \<open>press\<close> and \<open>release\<close> take the value of
  \<^verbatim>\<open>actions.visible()\<close> and the hit test \<^verbatim>\<open>contains\<close> as arguments, and return the calls
  they make to \<^verbatim>\<open>draw()\<close>, \<^verbatim>\<open>actions.press()\<close> and \<^verbatim>\<open>actions.release()\<close>, in order.
\<close>

record Radio =
  togglable :: bool
  toggled :: bool
  skip_release :: bool

datatype radio_call = Draw | PressAction | ReleaseAction

definition radio_assign :: "bool \<Rightarrow> Radio \<Rightarrow> Radio \<times> radio_call list" where
  \<comment> \<open>\<^verbatim>\<open>Radio & operator=(const bool state)\<close>\<close>
  "radio_assign state r = (r\<lparr>toggled := state\<rparr>, [Draw])"

definition press ::
  "bool \<Rightarrow> ('p \<Rightarrow> bool) \<Rightarrow> 'p \<Rightarrow> Radio \<Rightarrow> bool \<times> Radio \<times> radio_call list" where
  "press visible contains point r =
     (if \<not> visible then (contains point, r\<lparr>skip_release := True\<rparr>, [])
      else if contains point
        then (True, r\<lparr>toggled := \<not> toggled r\<rparr>, [Draw, PressAction])
      else (False, r, []))"

definition release ::
  "('p \<Rightarrow> bool) \<Rightarrow> 'p \<Rightarrow> Radio \<Rightarrow> bool \<times> Radio \<times> radio_call list" where
  "release contains point r =
     (if skip_release r then (contains point, r\<lparr>skip_release := False\<rparr>, [])
      else if contains point
        then (True,
              (if \<not> togglable r then r\<lparr>toggled := \<not> toggled r\<rparr> else r),
              [Draw, ReleaseAction])
      else (False, r, []))"

section \<open>Click classification\<close>

text \<open>
  \<^verbatim>\<open>XButtonEvent\<close> as far as \<^verbatim>\<open>Click\<close> reads it. The button numbers and modifier masks
  are those of \<^verbatim>\<open>X11/X.h\<close>.
\<close>

record XButtonEvent =
  ev_x :: int
  ev_y :: int
  state :: "32 word"
  button :: "32 word"

definition Button1 :: "32 word" where "Button1 = 1"
definition Button2 :: "32 word" where "Button2 = 2"
definition Button3 :: "32 word" where "Button3 = 3"
definition ShiftMask :: "32 word" where "ShiftMask = push_bit 0 1"
definition ControlMask :: "32 word" where "ControlMask = push_bit 2 1"

record Click = "int PointT" +
  "value" :: nat

definition click_assign :: "XButtonEvent \<Rightarrow> Click \<Rightarrow> Click" where
  \<comment> \<open>\<^verbatim>\<open>Click & operator=(const XButtonEvent & event)\<close>\<close>
  "click_assign event c =
     (let c1 = c\<lparr>xc := ev_x event, yc := ev_y event\<rparr>
      in if button event = Button2 \<or> state event AND ShiftMask \<noteq> 0
           then c1\<lparr>value := 2\<rparr>
         else if button event = Button3 \<or> state event AND ControlMask \<noteq> 0
           then c1\<lparr>value := 3\<rparr>
         else if button event = Button1
           then c1\<lparr>value := 1\<rparr>
         else c1\<lparr>value := 0\<rparr>)"


section \<open>The graph viewport\<close>

record SavedConfig =
  arc_radius :: double
  arc_width :: double
  line_width :: int
  line_type :: int
  series_order :: "nat list"
  range_v :: Range
  max_range :: Range
  zoomed :: "bool \<times> bool"
  drawn :: bool
  radio_states :: "bool list"

definition config_ne :: "SavedConfig \<Rightarrow> SavedConfig \<Rightarrow> bool" where
  \<comment> \<open>\<^verbatim>\<open>SavedConfig::operator!=\<close>\<close>
  "config_ne lhs rhs =
     (dne (arc_radius lhs) (arc_radius rhs) \<or>
      dne (arc_width lhs) (arc_width rhs) \<or>
      line_width lhs \<noteq> line_width rhs \<or>
      line_type lhs \<noteq> line_type rhs \<or>
      series_order lhs \<noteq> series_order rhs \<or>
      range_v lhs \<noteq> range_v rhs \<or>
      max_range lhs \<noteq> max_range rhs \<or>
      zoomed lhs \<noteq> zoomed rhs \<or>
      drawn lhs \<noteq> drawn rhs \<or>
      radio_states lhs \<noteq> radio_states rhs)"

text \<open>
  \<^verbatim>\<open>class X11Graph : public X11Win, public SavedConfig\<close>: the fields the range model, the
  pointer gestures and the view history read or write. \<open>range_v\<close> is the member
  \<^verbatim>\<open>range\<close>; \<open>size_w\<close> is \<^verbatim>\<open>size_\<close> of the window; a series is its pair of value vectors.
\<close>

record X11Graph = SavedConfig +
  size_w :: "int PointT"
  bounds :: iBounds
  scale :: "double \<times> double \<times> double"
  data :: "(datum list \<times> datum list) list"
  series_radios :: "Radio list"
  arcs_radio :: Radio
  outlines_radio :: Radio
  lines_radio :: Radio
  movie_radios :: "Radio \<times> Radio"
  click :: Click
  last_motion :: Point
  moved :: bool
  small_move :: bool
  just_configured :: bool
  saved_config :: "SavedConfig list"

definition scale_at :: "double \<times> double \<times> double \<Rightarrow> bool \<Rightarrow> double" where
  "scale_at s ax = (if ax then fst (snd s) else fst s)"

subsection \<open>Range functions\<close>

fun scan_values :: "datum list \<Rightarrow> double row3 \<Rightarrow> double row3" where
  \<comment> \<open>the loop \<^verbatim>\<open>for (const double val : *(*data)[s][y])\<close> of \<^verbatim>\<open>get_range\<close>\<close>
  "scan_values [] r = r"
| "scan_values (v # vs) r =
     (case v of
        NonFinite \<Rightarrow> scan_values vs r
      | Finite val \<Rightarrow>
          (let r1 = (if lo r > val then r\<lparr>lo := val\<rparr> else r);
               r2 = (if hi r1 < val then r1\<lparr>hi := val\<rparr> else r1)
           in scan_values vs r2))"

definition scan_series ::
  "bool \<Rightarrow> Radio list \<Rightarrow> (datum list \<times> datum list) list \<Rightarrow> double row3 \<Rightarrow> double row3" where
  \<comment> \<open>the loop over \<^verbatim>\<open>s\<close>, which skips a series whose radio is off\<close>
  "scan_series ax radios d r0 =
     fold (\<lambda>s r. if \<not> toggled (radios ! s) then r else scan_values (row (d ! s) ax) r)
          [0 ..< length d] r0"

definition padding :: double where
  "padding = 0.01"

definition get_range_axis ::
  "double \<Rightarrow> double \<Rightarrow> bool \<Rightarrow> 'a X11Graph_scheme \<Rightarrow> 'a X11Graph_scheme" where
  \<comment> \<open>one pass of the loop over \<^verbatim>\<open>y\<close> in \<^verbatim>\<open>get_range\<close>; \<open>unset\<close> and \<open>nunset\<close> are the
      values of \<^verbatim>\<open>unset(1.0)\<close> and \<^verbatim>\<open>nunset(1.0)\<close> of \<^verbatim>\<open>utility.h\<close>\<close>
  "get_range_axis unset nunset ax g =
     (let r0 = \<lparr>lo = unset, hi = nunset, wd = 0\<rparr>;
          r1 = scan_series ax (series_radios g) (data g) r0;
          r2 = r1\<lparr>wd := hi r1 - lo r1\<rparr>;
          r3 = r2\<lparr>lo := lo r2 - padding * wd r2\<rparr>;
          r4 = r3\<lparr>hi := hi r3 + padding * wd r3\<rparr>;
          r5 = r4\<lparr>wd := hi r4 - lo r4\<rparr>
      in g\<lparr>range_v := set_row (range_v g) ax r5,
            zoomed := set_row (zoomed g) ax False\<rparr>)"

definition get_range ::
  "double \<Rightarrow> double \<Rightarrow> nat \<Rightarrow> 'a X11Graph_scheme \<Rightarrow> 'a X11Graph_scheme" where
  "get_range unset nunset a g =
     (let g1 = (if a \<noteq> 2 \<and> a \<noteq> 0 then g else get_range_axis unset nunset False g);
          g2 = (if a \<noteq> 2 \<and> a \<noteq> 1 then g1 else get_range_axis unset nunset True g1)
      in if a = 2 then g2\<lparr>max_range := range_v g2\<rparr> else g2)"

definition set_range ::
  "bool \<Rightarrow> double \<Rightarrow> double \<Rightarrow> 'a X11Graph_scheme \<Rightarrow> 'a X11Graph_scheme" where
  "set_range ax low high g =
     (if \<bar>high - low\<bar> > 0.00000000001 * wd (row (max_range g) ax)
      then
        (let g1 = g\<lparr>range_v :=
                     set_row (range_v g) ax \<lparr>lo = low, hi = high, wd = high - low\<rparr>\<rparr>
         in g1\<lparr>zoomed := set_row (zoomed g1) ax
                  (dne (lo (row (range_v g1) ax)) (lo (row (max_range g1) ax)) \<or>
                   dne (hi (row (range_v g1) ax)) (hi (row (max_range g1) ax)))\<rparr>)
      else g\<lparr>range_v := max_range g\<rparr>)"

definition range_jump :: "bool \<Rightarrow> double \<Rightarrow> 'a X11Graph_scheme \<Rightarrow> 'a X11Graph_scheme" where
  "range_jump ax dst g =
     set_range ax (lo (row (range_v g) ax) + dst) (hi (row (range_v g) ax) + dst) g"

definition in_range :: "'a X11Graph_scheme \<Rightarrow> double \<Rightarrow> double \<Rightarrow> bool" where
  "in_range g xv yv =
     (xv \<ge> lo (row (range_v g) False) \<and> xv \<le> hi (row (range_v g) False) \<and>
      yv \<ge> lo (row (range_v g) True) \<and> yv \<le> hi (row (range_v g) True))"

text \<open>
  What \<^verbatim>\<open>get_range\<close> is meant to compute, said without the loops: the finite values
  of the series that are shown, and their least and greatest value moved outwards by
  one hundredth of their distance. \<open>scanned\<close> is the same with the start values of the
  scan still in place.
\<close>

fun finite_values :: "datum list \<Rightarrow> double list" where
  "finite_values [] = []"
| "finite_values (Finite v # vs) = v # finite_values vs"
| "finite_values (NonFinite # vs) = finite_values vs"

definition visible_values :: "'a X11Graph_scheme \<Rightarrow> bool \<Rightarrow> double list" where
  "visible_values g ax =
     concat (map (\<lambda>s. if toggled (series_radios g ! s)
                       then finite_values (row (data g ! s) ax) else [])
                 [0 ..< length (data g)])"

definition padded :: "double list \<Rightarrow> double row3" where
  "padded vs =
     \<lparr>lo = Min (set vs) - 0.01 * (Max (set vs) - Min (set vs)),
      hi = Max (set vs) + 0.01 * (Max (set vs) - Min (set vs)),
      wd = (Max (set vs) + 0.01 * (Max (set vs) - Min (set vs))) -
           (Min (set vs) - 0.01 * (Max (set vs) - Min (set vs)))\<rparr>"

definition scanned :: "double \<Rightarrow> double \<Rightarrow> double list \<Rightarrow> double row3" where
  "scanned unset nunset vs =
     (let l = fold min vs unset; h = fold max vs nunset
      in \<lparr>lo = l - 0.01 * (h - l), hi = h + 0.01 * (h - l),
          wd = (h + 0.01 * (h - l)) - (l - 0.01 * (h - l))\<rparr>)"

text \<open>A call of one of the two functions through which the range is changed.\<close>

datatype range_call = SetRange bool double double | RangeJump bool double

fun do_range_call :: "range_call \<Rightarrow> 'a X11Graph_scheme \<Rightarrow> 'a X11Graph_scheme" where
  "do_range_call (SetRange ax low high) g = set_range ax low high g"
| "do_range_call (RangeJump ax dst) g = range_jump ax dst g"

definition range_calls :: "range_call list \<Rightarrow> 'a X11Graph_scheme \<Rightarrow> 'a X11Graph_scheme" where
  "range_calls cs g = fold do_range_call cs g"

definition width_ok :: "Range \<Rightarrow> bool" where
  \<comment> \<open>\<^verbatim>\<open>range[axis][2] == range[axis][1] - range[axis][0]\<close> on both axes\<close>
  "width_ok t = (wd (fst t) = hi (fst t) - lo (fst t) \<and> wd (snd t) = hi (snd t) - lo (snd t))"

subsection \<open>Coordinates and transformations\<close>

text \<open>
  In \<^verbatim>\<open>coord\<close> the difference, the product and the sum or difference with the bound are
  three operations on \<^verbatim>\<open>double\<close>, each rounded, and the result is converted to \<^verbatim>\<open>int\<close>.
  In \<^verbatim>\<open>icoord\<close> the difference with the bound is \<^verbatim>\<open>int\<close> arithmetic, converted to
  \<^verbatim>\<open>double\<close> without loss; the quotient and the sum are rounded.
\<close>

definition coord :: "'a X11Graph_scheme \<Rightarrow> bool \<Rightarrow> double \<Rightarrow> int" where
  \<comment> \<open>\<^verbatim>\<open>int X11Graph::coord(const bool y, const double val)\<close>\<close>
  "coord g ax val =
     (if ax
      then to_int (fl (of_int (hi (row (bounds g) True)) -
                       fl (fl (val - lo (row (range_v g) True)) * scale_at (scale g) True)))
      else to_int (fl (of_int (lo (row (bounds g) False)) +
                       fl (fl (val - lo (row (range_v g) False)) * scale_at (scale g) False))))"

definition icoord :: "'a X11Graph_scheme \<Rightarrow> bool \<Rightarrow> int \<Rightarrow> double" where
  \<comment> \<open>\<^verbatim>\<open>double X11Graph::icoord(const bool y, const int val)\<close>\<close>
  "icoord g ax val =
     (if ax
      then fl (fl (of_int (hi (row (bounds g) True) - val) / scale_at (scale g) True) +
               lo (row (range_v g) True))
      else fl (fl (of_int (val - lo (row (bounds g) False)) / scale_at (scale g) False) +
               lo (row (range_v g) False)))"

definition coord_pt :: "'a X11Graph_scheme \<Rightarrow> dPoint \<Rightarrow> Point" where
  \<comment> \<open>\<^verbatim>\<open>Point X11Graph::coord(const dPoint point)\<close>\<close>
  "coord_pt g point = \<lparr>xc = coord g False (xc point), yc = coord g True (yc point)\<rparr>"

definition icoord_pt :: "'a X11Graph_scheme \<Rightarrow> Point \<Rightarrow> dPoint" where
  \<comment> \<open>\<^verbatim>\<open>dPoint X11Graph::icoord(const Point point)\<close>\<close>
  "icoord_pt g point = \<lparr>xc = icoord g False (xc point), yc = icoord g True (yc point)\<rparr>"

definition in_bounds :: "'a X11Graph_scheme \<Rightarrow> (int, 'c) PointT_scheme \<Rightarrow> bool" where
  "in_bounds g point =
     (xc point > lo (row (bounds g) False) \<and> xc point < hi (row (bounds g) False) \<and>
      yc point > lo (row (bounds g) True) \<and> yc point < hi (row (bounds g) True))"

text \<open>
  The round trip from a pixel to a data value and back goes through five rounded
  operations. On an axis that is \<open>well_conditioned\<close> their errors add up to less than a
  pixel: the scale is far from the ends of the exponent range of \<^verbatim>\<open>double\<close>, and the
  bound the pixels are counted from, 15 times the extent of the plot and 6 times the
  low end of the range in pixels stay together below \<open>2\<^sup>5\<^sup>3\<close>.
\<close>

definition well_conditioned :: "'a X11Graph_scheme \<Rightarrow> bool \<Rightarrow> bool" where
  "well_conditioned g ax =
     (pow2 (- 500) \<le> scale_at (scale g) ax \<and> scale_at (scale g) ax \<le> pow2 500 \<and>
      \<bar>of_int (if ax then hi (row (bounds g) ax) else lo (row (bounds g) ax))\<bar> +
      15 * of_int (hi (row (bounds g) ax) - lo (row (bounds g) ax)) +
      6 * (\<bar>lo (row (range_v g) ax)\<bar> * scale_at (scale g) ax) < 2 ^ 53)"

definition get_quadrant :: "'a X11Graph_scheme \<Rightarrow> (int, 'c) PointT_scheme \<Rightarrow> nat" where
  \<comment> \<open>the products and quotients are \<^verbatim>\<open>int\<close> arithmetic: the division truncates\<close>
  "get_quadrant g point =
     (let b = bounds g;
          below_pos = (yc point > hi (row b True) +
             ((xc point - lo (row b False)) * (lo (row b True) - hi (row b True))) sdiv
               (hi (row b False) - lo (row b False)));
          below_neg = (yc point > lo (row b True) +
             ((xc point - lo (row b False)) * (hi (row b True) - lo (row b True))) sdiv
               (hi (row b False) - lo (row b False)))
      in if below_pos then (if below_neg then 0 else 3) else (if below_neg then 1 else 2))"

definition min_border :: "'a X11Graph_scheme \<Rightarrow> int" where
  \<comment> \<open>\<^verbatim>\<open>X11Graph::min_border\<close>: \<^verbatim>\<open>0.05 * std::min(width(), height())\<close> returned as int\<close>
  "min_border g = to_int (0.05 * of_int (min (xc (size_w g)) (yc (size_w g))))"

subsection \<open>Prepare and draw\<close>

text \<open>
  \<^verbatim>\<open>X11Graph::prepare\<close> up to "Set scales". The rest of the function fills the marker and
  line batches \<^verbatim>\<open>arcs\<close> and \<^verbatim>\<open>points\<close>, which no function below reads. A quotient whose
  divisor is 0 is 0 here, where the C++ \<^verbatim>\<open>double\<close> is infinite or NaN.
\<close>

definition set_bounds :: "int \<Rightarrow> int \<Rightarrow> int \<Rightarrow> int \<Rightarrow> 'a X11Graph_scheme \<Rightarrow> 'a X11Graph_scheme" where
  "set_bounds xl xh yl yh g =
     g\<lparr>bounds := (\<lparr>lo = xl, hi = xh, wd = xh - xl\<rparr>, \<lparr>lo = yl, hi = yh, wd = yh - yl\<rparr>)\<rparr>"

definition prepare :: "'a X11Graph_scheme \<Rightarrow> 'a X11Graph_scheme" where
  "prepare g =
     (let g1 = g\<lparr>drawn := False\<rparr>;
          border = min_border g1;
          g2 = set_bounds border (xc (size_w g1) - border) border (yc (size_w g1) - border) g1;
          g3 = (if lo (row (range_v g2) False) \<ge> hi (row (max_range g2) False) \<or>
                   hi (row (range_v g2) False) \<le> lo (row (max_range g2) False) \<or>
                   lo (row (range_v g2) True) \<ge> hi (row (max_range g2) True) \<or>
                   hi (row (range_v g2) True) \<le> lo (row (max_range g2) True)
                then g2\<lparr>range_v := max_range g2\<rparr> else g2);
          sx = of_int (wd (row (bounds g3) False)) / wd (row (range_v g3) False);
          sy = of_int (wd (row (bounds g3) True)) / wd (row (range_v g3) True)
      in g3\<lparr>scale := (sx, sy, sy / sx)\<rparr>)"

definition unreasonable :: "'a X11Graph_scheme \<Rightarrow> bool" where
  \<comment> \<open>the test of \<^verbatim>\<open>prepare\<close> under "Make sure range is reasonable", by name\<close>
  "unreasonable g =
     (lo (row (range_v g) False) \<ge> hi (row (max_range g) False) \<or>
      hi (row (range_v g) False) \<le> lo (row (max_range g) False) \<or>
      lo (row (range_v g) True) \<ge> hi (row (max_range g) True) \<or>
      hi (row (range_v g) True) \<le> lo (row (max_range g) True))"

definition saved_radios :: "'a X11Graph_scheme \<Rightarrow> Radio list" where
  \<comment> \<open>the radios \<^verbatim>\<open>saved_radios\<close> points to: three named ones, then one for each series\<close>
  "saved_radios g = [arcs_radio g, outlines_radio g, lines_radio g] @ series_radios g"

definition current_config :: "'a X11Graph_scheme \<Rightarrow> SavedConfig" where
  "current_config g = (SavedConfig.truncate g)\<lparr>radio_states := map toggled (saved_radios g)\<rparr>"

definition save_config :: "SavedConfig \<Rightarrow> 'a X11Graph_scheme \<Rightarrow> 'a X11Graph_scheme" where
  "save_config config g = g\<lparr>saved_config := saved_config g @ [config]\<rparr>"

text \<open>
  \<^verbatim>\<open>X11Graph::draw\<close>. The requests sent to the display and the read-only redraw of the
  controls leave the graph as it is; the user call-backs are taken not to change it. What
  remains is the bookkeeping at the end of the function.
\<close>

definition draw :: "'a X11Graph_scheme \<Rightarrow> 'a X11Graph_scheme" where
  "draw g =
     (let g1 = g\<lparr>just_configured := False\<rparr>;
          g2 = g1\<lparr>drawn := True\<rparr>
      in if \<not> small_move g2
         then (let current = current_config g2
               in if saved_config g2 = [] \<or> config_ne current (last (saved_config g2))
                  then save_config current g2 else g2)
         else g2)"

definition prepare_draw :: "'a X11Graph_scheme \<Rightarrow> 'a X11Graph_scheme" where
  "prepare_draw g = draw (prepare g)"

subsection \<open>Pointer release\<close>






text \<open>
  Words for the statements about a click: the axes the loop does not skip, the bounds a
  click with zoom factor \<open>z\<close> asks \<^verbatim>\<open>set_range\<close> for, whether \<^verbatim>\<open>set_range\<close> takes
  that request or finds it negligible, and a range that does not reach beyond the
  full-data range.
\<close>

definition affected :: "'a X11Graph_scheme \<Rightarrow> bool \<Rightarrow> bool" where
  "affected g ax = (in_bounds g (click g) \<or> (get_quadrant g (click g) mod 2 = 1) = ax)"





text \<open>
  \<open>zooms_by g z\<close>: the click recorded in \<open>g\<close> is one of the two that change the size of
  the view, and \<open>z\<close> is the factor the loop gives it (\<^verbatim>\<open>in ? 0.1 : 10.0\<close>, where
  \<^verbatim>\<open>in\<close> is \<^verbatim>\<open>click == 2\<close>). \<open>click_kept\<close>: the request of a click is taken by
  \<^verbatim>\<open>set_range\<close> and passes the test of \<^verbatim>\<open>prepare\<close> on its axis. \<open>view_ok\<close>: the state
  before the click passes the test of \<^verbatim>\<open>prepare\<close>, the full-data range has its ends in
  order on both axes, and no width is negative.
\<close>

definition zooms_by :: "'a X11Graph_scheme \<Rightarrow> double \<Rightarrow> bool" where
  "zooms_by g z = ((value (click g) = 3 \<and> z = 10) \<or> (value (click g) = 2 \<and> z = 0.1))"



subsection \<open>Movie playback\<close>

text \<open>
  \<^verbatim>\<open>X11Graph::movie\<close>. What the loop learns from outside in one turn is a \<open>frame_input\<close>:
  the points of the button releases that follow the presses pending at the poll, and
  whether the clock has already passed the time of the frame. The frames are
  \<^verbatim>\<open>1000 / 15.0\<close> milliseconds apart, 66 as an integer. The loop may run for ever, so it is
  given the inputs of the frames it may use: \<open>None\<close> says that it is still running after
  the last of them.
\<close>

record frame_input =
  releases :: "Point list"
  late :: bool

definition page_rate :: double where
  "page_rate = 0.35"

definition milliseconds_per_frame :: nat where
  "milliseconds_per_frame = 66"

fun poll_presses :: "(Point \<Rightarrow> bool) \<Rightarrow> Point list \<Rightarrow> Radio \<Rightarrow> bool \<times> Radio" where
  \<comment> \<open>the loop \<^verbatim>\<open>while (XCheckWindowEvent(display(), window, ButtonPressMask, &event))\<close>\<close>
  "poll_presses contains [] r = (False, r)"
| "poll_presses contains (p # ps) r =
     (case release contains p r of
        (hit, r1, calls) \<Rightarrow>
          if hit then (True, fst (radio_assign False r1)) else poll_presses contains ps r1)"

definition movie_jump :: "bool \<Rightarrow> nat \<Rightarrow> nat \<Rightarrow> 'a X11Graph_scheme \<Rightarrow> 'a X11Graph_scheme" where
  \<comment> \<open>the scroll of one frame: \<^verbatim>\<open>seconds\<close> is the time from the last frame that was
      shown to this one\<close>
  "movie_jump right frame last_frame g =
     (let seconds = real ((frame - last_frame) * milliseconds_per_frame) / 1000;
          movement = page_rate * seconds * wd (row (range_v g) False)
      in range_jump False ((if right then 1 else - 1) * movement) g)"

definition inside_max :: "'a X11Graph_scheme \<Rightarrow> bool" where
  \<comment> \<open>\<^verbatim>\<open>range[0][0] > max_range[0][0] && range[0][1] < max_range[0][1]\<close>\<close>
  "inside_max g =
     (lo (row (range_v g) False) > lo (row (max_range g) False) \<and>
      hi (row (range_v g) False) < hi (row (max_range g) False))"

fun movie_frames ::
  "(Point \<Rightarrow> bool) \<Rightarrow> bool \<Rightarrow> frame_input list \<Rightarrow> nat \<Rightarrow> nat \<Rightarrow>
   'a X11Graph_scheme \<Rightarrow> 'a X11Graph_scheme option" where
  "movie_frames contains right [] frame last_frame g = None"
| "movie_frames contains right (f # fs) frame last_frame g =
     (case poll_presses contains (releases f) (row (movie_radios g) right) of
        (stopped, r) \<Rightarrow>
          (let g1 = g\<lparr>movie_radios := set_row (movie_radios g) right r\<rparr>
           in if stopped then Some g1
              else if late f then movie_frames contains right fs (frame + 1) last_frame g1
              else
                (let g2 = movie_jump right frame last_frame g1
                 in if \<not> inside_max g2
                    then Some (g2\<lparr>movie_radios := set_row (movie_radios g2) right
                                  (fst (radio_assign False (row (movie_radios g2) right)))\<rparr>)
                    else movie_frames contains right fs (frame + 1) frame
                           (prepare_draw (g2\<lparr>small_move := True\<rparr>)))))"

definition movie ::
  "(Point \<Rightarrow> bool) \<Rightarrow> bool \<Rightarrow> frame_input list \<Rightarrow> 'a X11Graph_scheme \<Rightarrow>
   'a X11Graph_scheme option" where
  "movie contains right fs g = movie_frames contains right fs 0 0 g"

definition release_seen :: "(Point \<Rightarrow> bool) \<Rightarrow> frame_input list \<Rightarrow> bool" where
  \<comment> \<open>some release handed to the movie control during the polls hit the control\<close>
  "release_seen contains fs = list_ex (\<lambda>f. list_ex contains (releases f)) fs"

section \<open>The program randomize_order\<close>

text \<open>
  \<^verbatim>\<open>utility/randomize_order.cpp\<close>. The world the program runs in is given by three
  arguments: \<open>files\<close> maps a file name to the lines \<^verbatim>\<open>getline\<close> reads from it, or to
  \<open>None\<close> when the file cannot be opened; \<open>rnd\<close> is the stream of numbers the seeded
  generator hands to \<^verbatim>\<open>shuffle\<close>. Standard output is given by two more: \<open>cout_good\<close>
  tells, for each number of lines already handed to \<^verbatim>\<open>cout\<close>, what the test \<^verbatim>\<open>!cout\<close>
  before the next line finds; \<open>delivered\<close> tells, for each line handed to \<^verbatim>\<open>cout\<close> by
  its number, whether it reaches standard output. The two are apart because a write
  can fail, or stay in the buffer of the stream and be lost at the end, after the test
  before it has found the stream good. The field \<open>cout\<close> of the outcome holds the lines
  that reached standard output.
\<close>

record outcome =
  exit_status :: int
  cout :: "string list"
  cerr :: "string list"

definition swap :: "nat \<Rightarrow> nat \<Rightarrow> 'a list \<Rightarrow> 'a list" where
  "swap i j xs = xs[i := xs ! j, j := xs ! i]"

definition shuffle :: "(nat \<Rightarrow> nat) \<Rightarrow> 'a list \<Rightarrow> 'a list" where
  \<comment> \<open>\<^verbatim>\<open>std::shuffle\<close> of the C++ library, as the exchange shuffle the library
      implements: the element at each position \<open>i\<close> changes places with the one at a
      drawn position not above \<open>i\<close>.\<close>
  "shuffle rnd xs = fold (\<lambda>i ys. swap i (rnd i mod (i + 1)) ys) [1 ..< length xs] xs"

fun read_files :: "(string \<Rightarrow> string list option) \<Rightarrow> string list \<Rightarrow> string list \<Rightarrow>
    string + string list" where
  \<comment> \<open>the loop \<^verbatim>\<open>while (--argc)\<close>; \<open>Inl\<close> carries the message of the \<^verbatim>\<open>Error\<close> thrown\<close>
  "read_files files [] lines = Inr lines"
| "read_files files (name # names) lines =
     (case files name of
        None \<Rightarrow> Inl (''Could not open file for input: '' @ name)
      | Some ls \<Rightarrow> read_files files names (lines @ ls))"

fun write_lines ::
  "(nat \<Rightarrow> bool) \<Rightarrow> (nat \<Rightarrow> bool) \<Rightarrow> string list \<Rightarrow> nat \<Rightarrow> outcome \<Rightarrow> outcome" where
  \<comment> \<open>the loop \<^verbatim>\<open>for (const auto & val : data)\<close>; \<open>n\<close> counts the lines handed to
      \<^verbatim>\<open>cout\<close> so far\<close>
  "write_lines cout_good delivered [] n out = out"
| "write_lines cout_good delivered (val # vals) n out =
     (if \<not> cout_good n
      then out\<lparr>cerr := cerr out @ [''cout closed'']\<rparr>
      else write_lines cout_good delivered vals (n + 1)
             (if delivered n then out\<lparr>cout := cout out @ [val]\<rparr> else out))"

definition randomize_order ::
  "(string \<Rightarrow> string list option) \<Rightarrow> (nat \<Rightarrow> nat) \<Rightarrow> (nat \<Rightarrow> bool) \<Rightarrow> (nat \<Rightarrow> bool) \<Rightarrow>
   string list \<Rightarrow> outcome" where
  \<comment> \<open>\<^verbatim>\<open>main\<close>; \<open>argv\<close> starts with the name of the program\<close>
  "randomize_order files rnd cout_good delivered argv =
     (if length argv < 2
      then \<lparr>exit_status = 1, cout = [],
            cerr = [''paa::Error:'', ''usage: randomize_order input_file ...'']\<rparr>
      else
        (case read_files files (tl argv) [] of
           Inl msg \<Rightarrow> \<lparr>exit_status = 1, cout = [], cerr = [''paa::Error:'', msg]\<rparr>
         | Inr lines \<Rightarrow>
             write_lines cout_good delivered (shuffle rnd lines) 0
               \<lparr>exit_status = 0, cout = [], cerr = []\<rparr>))"

definition input_lines :: "(string \<Rightarrow> string list option) \<Rightarrow> string list \<Rightarrow> string list" where
  \<comment> \<open>the lines of the named files, one file after the other\<close>
  "input_lines files names = concat (map (\<lambda>name. case files name of None \<Rightarrow> [] | Some ls \<Rightarrow> ls) names)"

section \<open>Example states\<close>

text \<open>
  The scenario of the specification: one series with x = 0, 1, 2, 3, 4 and
  y = 0, 1, 4, 9, 16 in a window of 1280 by 720 pixels, after the first
  \<^verbatim>\<open>get_range()\<close> and \<^verbatim>\<open>prepare()\<close>.
\<close>

definition radio_on :: Radio where
  "radio_on = \<lparr>togglable = True, toggled = True, skip_release = False\<rparr>"

definition radio_off :: Radio where
  "radio_off = \<lparr>togglable = True, toggled = False, skip_release = False\<rparr>"

definition example_graph :: X11Graph where
  "example_graph =
     \<lparr>arc_radius = 4, arc_width = 2, line_width = 4, line_type = 0, series_order = [0],
      range_v = (\<lparr>lo = - 0.04, hi = 4.04, wd = 4.08\<rparr>, \<lparr>lo = - 0.16, hi = 16.16, wd = 16.32\<rparr>),
      max_range = (\<lparr>lo = - 0.04, hi = 4.04, wd = 4.08\<rparr>, \<lparr>lo = - 0.16, hi = 16.16, wd = 16.32\<rparr>),
      zoomed = (False, False), drawn = False, radio_states = [],
      size_w = \<lparr>xc = 1280, yc = 720\<rparr>,
      bounds = (\<lparr>lo = 36, hi = 1244, wd = 1208\<rparr>, \<lparr>lo = 36, hi = 684, wd = 648\<rparr>),
      scale = (1208 / 4.08, 648 / 16.32, (648 / 16.32) / (1208 / 4.08)),
      data = [([Finite 0, Finite 1, Finite 2, Finite 3, Finite 4],
               [Finite 0, Finite 1, Finite 4, Finite 9, Finite 16])],
      series_radios = [radio_on],
      arcs_radio = radio_on, outlines_radio = radio_off, lines_radio = radio_off,
      movie_radios = (radio_off, radio_off),
      click = \<lparr>xc = 0, yc = 0, value = 0\<rparr>,
      last_motion = \<lparr>xc = 0, yc = 0\<rparr>,
      moved = False, small_move = False, just_configured = True,
      saved_config = []\<rparr>"

definition zoomed_graph :: X11Graph where
  \<comment> \<open>the same graph with both axes zoomed in\<close>
  "zoomed_graph =
     example_graph\<lparr>range_v := (\<lparr>lo = 1, hi = 3, wd = 2\<rparr>, \<lparr>lo = 2, hi = 6, wd = 4\<rparr>),
                   zoomed := (True, True)\<rparr>"






definition far_graph :: X11Graph where
  \<comment> \<open>the x values of the series lie around 4e15, and the view is zoomed in to an x range
      of width 1; the scale is the one \<^verbatim>\<open>prepare\<close> computes\<close>
  "far_graph =
     example_graph\<lparr>range_v := (\<lparr>lo = 4000000000000000, hi = 4000000000000001, wd = 1\<rparr>,
                               \<lparr>lo = - 0.16, hi = 16.16, wd = 16.32\<rparr>),
                   max_range := (\<lparr>lo = 3999999999998980, hi = 4000000000001020, wd = 2040\<rparr>,
                                 \<lparr>lo = - 0.16, hi = 16.16, wd = 16.32\<rparr>),
                   zoomed := (True, False),
                   scale := (1208, 648 / 16.32, (648 / 16.32) / 1208),
                   data := [([Finite 3999999999999000, Finite 4000000000001000],
                             [Finite 0, Finite 16])]\<rparr>"


definition no_click :: Click where
  "no_click = \<lparr>xc = 0, yc = 0, value = 0\<rparr>"

definition plain_radio :: Radio where
  \<comment> \<open>a control that is not sticky: its release flips it back\<close>
  "plain_radio = \<lparr>togglable = False, toggled = False, skip_release = False\<rparr>"

definition movie_hit :: "Point \<Rightarrow> bool" where
  \<comment> \<open>a hit test for the movie control: a disc drawn as a square around (700, 700)\<close>
  "movie_hit p = (\<bar>xc p - 700\<bar> < 12 \<and> \<bar>yc p - 700\<bar> < 12)"

definition edge_graph :: X11Graph where
  \<comment> \<open>zoomed in, the x range close to the right end of the data, the movie to the
      right switched on\<close>
  "edge_graph =
     example_graph\<lparr>range_v := (\<lparr>lo = 2, hi = 4, wd = 2\<rparr>, \<lparr>lo = 2, hi = 6, wd = 4\<rparr>),
                   zoomed := (True, True),
                   movie_radios := (radio_off, radio_on)\<rparr>"

definition quiet_frames :: "frame_input list" where
  \<comment> \<open>two frames without any button event; the clock is past the time of the first\<close>
  "quiet_frames = [\<lparr>releases = [], late = True\<rparr>, \<lparr>releases = [], late = False\<rparr>]"

definition two_line_file :: "string \<Rightarrow> string list option" where
  \<comment> \<open>a file system with the single file a, of two lines\<close>
  "two_line_file name = (if name = ''a'' then Some [''x'', ''y''] else None)"

definition first_draws :: "nat \<Rightarrow> nat" where
  "first_draws i = 0"

definition stays_good :: "nat \<Rightarrow> bool" where
  \<comment> \<open>every test of \<^verbatim>\<open>cout\<close> finds the stream good\<close>
  "stays_good n = True"

definition all_delivered :: "nat \<Rightarrow> bool" where
  "all_delivered n = True"

definition nothing_delivered :: "nat \<Rightarrow> bool" where
  \<comment> \<open>standard output is closed, or the device is full: the lines stay in the buffer
      of the stream and are lost when the program ends\<close>
  "nothing_delivered n = False"

section \<open>Properties of the range model\<close>

lemma row_set_row [simp]: "row (set_row t ax v) ax' = (if ax' = ax then v else row t ax')"
  by (auto simp: row_def set_row_def)

lemma width_ok_iff: "width_ok t \<longleftrightarrow> (\<forall>ax. wd (row t ax) = hi (row t ax) - lo (row t ax))"
  by (auto simp: width_ok_def row_def)

lemma set_range_keeps_max [simp]: "max_range (set_range ax low high g) = max_range g"
  by (simp add: set_range_def Let_def)

lemma set_range_width_ok:
  "width_ok (range_v g) \<Longrightarrow> width_ok (max_range g) \<Longrightarrow>
   width_ok (range_v (set_range ax low high g))"
  by (simp add: set_range_def Let_def width_ok_iff)

lemma do_range_call_inv:
  "width_ok (range_v g) \<and> width_ok (max_range g) \<Longrightarrow>
   width_ok (range_v (do_range_call c g)) \<and> width_ok (max_range (do_range_call c g))"
  by (cases c) (simp_all add: range_jump_def set_range_width_ok)

lemma range_calls_inv:
  "width_ok (range_v g) \<and> width_ok (max_range g) \<Longrightarrow>
   width_ok (range_v (range_calls cs g)) \<and> width_ok (max_range (range_calls cs g))"
  unfolding range_calls_def
proof (induction cs arbitrary: g)
  case Nil
  then show ?case by simp
next
  case (Cons c cs)
  from Cons.prems
  have "width_ok (range_v (do_range_call c g)) \<and> width_ok (max_range (do_range_call c g))"
    by (rule do_range_call_inv)
  then show ?case using Cons.IH by simp
qed

text \<open>
  Claim C1. In a graph whose range and full-data range both store, on each axis, a
  width equal to high minus low (as they do after \<^verbatim>\<open>get_range()\<close>), run any sequence of
  \<^verbatim>\<open>set_range\<close> and \<^verbatim>\<open>range_jump\<close> calls with any arguments. After each call, that is
  after every initial part of the sequence, the stored width of the range equals high
  minus low on every axis.
\<close>

theorem set_range_width_invariant:
  assumes "width_ok (range_v g)" and "width_ok (max_range g)"
  shows "wd (row (range_v (range_calls (take n calls) g)) ax) =
         hi (row (range_v (range_calls (take n calls) g)) ax) -
         lo (row (range_v (range_calls (take n calls) g)) ax)"
  using range_calls_inv [of g "take n calls"] assms by (simp add: width_ok_iff)

theorem set_range_width_invariant_witness:
  "width_ok (range_v example_graph) \<and> width_ok (max_range example_graph) \<and>
   range_v (range_calls (take 2 [SetRange False 1 3, RangeJump False 1, SetRange True 5 5])
              example_graph)
     = (\<lparr>lo = 2, hi = 4, wd = 2\<rparr>, \<lparr>lo = - 0.16, hi = 16.16, wd = 16.32\<rparr>) \<and>
   wd (row (range_v (range_calls (take 2 [SetRange False 1 3, RangeJump False 1, SetRange True 5 5])
                       example_graph)) False) =
   hi (row (range_v (range_calls (take 2 [SetRange False 1 3, RangeJump False 1, SetRange True 5 5])
                       example_graph)) False) -
   lo (row (range_v (range_calls (take 2 [SetRange False 1 3, RangeJump False 1, SetRange True 5 5])
                       example_graph)) False)"
proof -
  have a: "width_ok (range_v example_graph)"
    by (simp add: example_graph_def width_ok_def)
  have b: "width_ok (max_range example_graph)"
    by (simp add: example_graph_def width_ok_def)
  have c: "range_v (range_calls (take 2 [SetRange False 1 3, RangeJump False 1, SetRange True 5 5])
                      example_graph)
     = (\<lparr>lo = 2, hi = 4, wd = 2\<rparr>, \<lparr>lo = - 0.16, hi = 16.16, wd = 16.32\<rparr>)"
    by (simp add: range_calls_def range_jump_def set_range_def example_graph_def Let_def
        row_def set_row_def dne_def)
  show ?thesis
    using a b c
      set_range_width_invariant [OF a b, of 2
        "[SetRange False 1 3, RangeJump False 1, SetRange True 5 5]" False]
    by blast
qed

text \<open>
  Claim C2, as the code has it. A call \<^verbatim>\<open>set_range(axis, low, high)\<close> whose request is
  negligible, \<open>|high - low|\<close> at most \<open>1e-11\<close> times the width of the full-data range of
  that axis (so every call with \<open>high = low\<close> when that width is not negative), leaves
  the full-data range as it is and sets the range of both axes, not only of the given
  one, to the full-data range.
\<close>

theorem set_range_degenerate_resets_all:
  assumes "\<bar>high - low\<bar> \<le> 0.00000000001 * wd (row (max_range g) ax)"
  shows "range_v (set_range ax low high g) = max_range g \<and>
         max_range (set_range ax low high g) = max_range g \<and>
         row (range_v (set_range ax low high g)) (\<not> ax) = row (max_range g) (\<not> ax)"
  using assms by (simp add: set_range_def)

theorem set_range_degenerate_resets_all_witness:
  "\<bar>(5::real) - 5\<bar> \<le> 0.00000000001 * wd (row (max_range zoomed_graph) False) \<and>
   range_v (set_range False 5 5 zoomed_graph) = max_range zoomed_graph \<and>
   row (range_v (set_range False 5 5 zoomed_graph)) True = \<lparr>lo = - 0.16, hi = 16.16, wd = 16.32\<rparr>"
proof -
  have h: "\<bar>(5::real) - 5\<bar> \<le> 0.00000000001 * wd (row (max_range zoomed_graph) False)"
    by (simp add: zoomed_graph_def example_graph_def row_def)
  have m: "row (max_range zoomed_graph) True = \<lparr>lo = - 0.16, hi = 16.16, wd = 16.32\<rparr>"
    by (simp add: zoomed_graph_def example_graph_def row_def)
  show ?thesis using h m set_range_degenerate_resets_all [OF h] by simp
qed

text \<open>
  The claim as stated fails: with both axes zoomed in, the degenerate request
  \<^verbatim>\<open>set_range(false, 5, 5)\<close> for the x axis also replaces the range of the y axis, which
  the claim says is left as it was.
\<close>

theorem set_range_other_axis_counterexample:
  "range_v (set_range False 5 5 zoomed_graph) = max_range zoomed_graph \<and>
   row (range_v zoomed_graph) True = \<lparr>lo = 2, hi = 6, wd = 4\<rparr> \<and>
   row (range_v (set_range False 5 5 zoomed_graph)) True =
     \<lparr>lo = - 0.16, hi = 16.16, wd = 16.32\<rparr> \<and>
   row (range_v (set_range False 5 5 zoomed_graph)) True \<noteq> row (range_v zoomed_graph) True"
  by (simp add: set_range_def zoomed_graph_def example_graph_def row_def)

text \<open>
  The guard compares with the width of the full-data range, so a request with equal
  ends is taken as it stands when that width is negative, as it is after a
  \<^verbatim>\<open>get_range()\<close> that found no finite value on the axis.
\<close>

lemma set_range_equal_ends_negative_max:
  assumes "wd (row (max_range g) ax) < 0"
  shows "range_v (set_range ax low low g) =
         set_row (range_v g) ax \<lparr>lo = low, hi = low, wd = 0\<rparr>"
  using assms by (simp add: set_range_def Let_def mult_neg_pos)

subsection \<open>The scan of the data\<close>

lemma scan_values_eq:
  "scan_values vs r =
   r\<lparr>lo := fold min (finite_values vs) (lo r), hi := fold max (finite_values vs) (hi r)\<rparr>"
proof (induction vs arbitrary: r)
  case Nil
  then show ?case by simp
next
  case (Cons v vs)
  show ?case
  proof (cases v)
    case (Finite val)
    then show ?thesis by (simp add: Cons.IH Let_def min_def max_def)
  next
    case NonFinite
    then show ?thesis by (simp add: Cons.IH)
  qed
qed

lemma fold_scan:
  "fold (\<lambda>s r. if \<not> toggled (radios ! s) then r else scan_values (row (d ! s) ax) r) ss r0 =
   r0\<lparr>lo := fold min (concat (map (\<lambda>s. if toggled (radios ! s)
                                         then finite_values (row (d ! s) ax) else []) ss)) (lo r0),
       hi := fold max (concat (map (\<lambda>s. if toggled (radios ! s)
                                         then finite_values (row (d ! s) ax) else []) ss)) (hi r0)\<rparr>"
proof (induction ss arbitrary: r0)
  case Nil
  then show ?case by simp
next
  case (Cons s ss)
  then show ?case by (simp add: scan_values_eq)
qed

lemma scan_series_eq:
  "scan_series ax (series_radios g) (data g) r0 =
   r0\<lparr>lo := fold min (visible_values g ax) (lo r0), hi := fold max (visible_values g ax) (hi r0)\<rparr>"
  by (simp add: scan_series_def visible_values_def fold_scan)

lemma fold_min_Min: "fold min vs (a::real) = Min (insert a (set vs))"
  by (metis Min.set_eq_fold list.simps(15))

lemma fold_max_Max: "fold max vs (a::real) = Max (insert a (set vs))"
  by (metis Max.set_eq_fold list.simps(15))

lemma fold_min_le: "v \<in> set vs \<Longrightarrow> fold min vs (a::real) \<le> v"
  by (simp add: fold_min_Min)

lemma fold_max_ge: "v \<in> set vs \<Longrightarrow> v \<le> fold max vs (a::real)"
  by (simp add: fold_max_Max)

lemma fold_min_bounded:
  "vs \<noteq> [] \<Longrightarrow> \<forall>v\<in>set vs. v \<le> a \<Longrightarrow> fold min vs (a::real) = Min (set vs)"
  by (simp add: fold_min_Min Min_insert2)

lemma fold_max_bounded:
  "vs \<noteq> [] \<Longrightarrow> \<forall>v\<in>set vs. a \<le> v \<Longrightarrow> fold max vs (a::real) = Max (set vs)"
  by (simp add: fold_max_Max Max_insert2)

lemma finite_values_mem: "Finite v \<in> set vs \<Longrightarrow> v \<in> set (finite_values vs)"
  by (induction vs rule: finite_values.induct) auto

lemma visible_values_mem:
  assumes "s < length (data g)" and "toggled (series_radios g ! s)"
    and "p < length (row (data g ! s) ax)" and "row (data g ! s) ax ! p = Finite v"
  shows "v \<in> set (visible_values g ax)"
proof -
  have "Finite v \<in> set (row (data g ! s) ax)"
    using assms(3,4) by (metis nth_mem)
  then have "v \<in> set (finite_values (row (data g ! s) ax))"
    by (rule finite_values_mem)
  then show ?thesis
    using assms(1,2) by (auto simp: visible_values_def intro!: bexI [of _ s])
qed

lemma data_get_range_axis [simp]:
  "data (get_range_axis unset nunset ax g) = data g"
  "series_radios (get_range_axis unset nunset ax g) = series_radios g"
  by (simp_all add: get_range_axis_def Let_def)

lemma visible_values_get_range_axis [simp]:
  "visible_values (get_range_axis unset nunset ax g) ax' = visible_values g ax'"
  by (simp add: visible_values_def cong: if_cong)

lemma get_range_axis_row:
  "row (range_v (get_range_axis unset nunset ax g)) ax' =
     (if ax' = ax then scanned unset nunset (visible_values g ax) else row (range_v g) ax')"
  by (simp add: get_range_axis_def scan_series_eq scanned_def Let_def padding_def)

lemma get_range_both_row:
  "row (range_v (get_range unset nunset 2 g)) ax = scanned unset nunset (visible_values g ax)"
  by (cases ax) (simp_all add: get_range_def Let_def get_range_axis_row)

lemma get_range_both_max:
  "max_range (get_range unset nunset 2 g) = range_v (get_range unset nunset 2 g)"
  by (simp add: get_range_def Let_def)

lemma scanned_padded:
  "vs \<noteq> [] \<Longrightarrow> \<forall>v\<in>set vs. nunset \<le> v \<and> v \<le> unset \<Longrightarrow> scanned unset nunset vs = padded vs"
  by (simp add: scanned_def padded_def fold_min_bounded fold_max_bounded Let_def)

lemma pad_covers:
  fixes l h v :: real
  shows "l \<le> v \<Longrightarrow> v \<le> h \<Longrightarrow> l - 0.01 * (h - l) \<le> v \<and> v \<le> h + 0.01 * (h - l)"
  by (simp add: field_simps)

lemma scanned_covers:
  assumes "v \<in> set vs"
  shows "lo (scanned unset nunset vs) \<le> v \<and> v \<le> hi (scanned unset nunset vs)"
proof -
  have "fold min vs unset \<le> v" and "v \<le> fold max vs nunset"
    using assms by (simp_all add: fold_min_le fold_max_ge)
  then have "fold min vs unset - 0.01 * (fold max vs nunset - fold min vs unset) \<le> v \<and>
             v \<le> fold max vs nunset + 0.01 * (fold max vs nunset - fold min vs unset)"
    by (rule pad_covers)
  then show ?thesis by (simp add: scanned_def Let_def)
qed

lemma get_range_width_ok:
  "width_ok (range_v (get_range unset nunset 2 g)) \<and>
   width_ok (max_range (get_range unset nunset 2 g))"
  by (simp add: get_range_both_max width_ok_iff get_range_both_row scanned_def Let_def)

text \<open>
  Claim C3. Let the graph have one control for each series. After \<^verbatim>\<open>get_range()\<close>, on
  an axis where the series that are shown have a finite value at all, and every such
  value lies between the two start values of the scan (\<^verbatim>\<open>nunset(1.0)\<close> and
  \<^verbatim>\<open>unset(1.0)\<close>), the range runs from the least value minus one hundredth of the span
  to the greatest value plus one hundredth of the span. And every point of a series
  that is shown, with both coordinates finite, is \<^verbatim>\<open>in_range\<close> right afterwards.
\<close>

theorem get_range_pads_and_covers:
  assumes "length (series_radios g) = length (data g)"
  shows "(visible_values g ax \<noteq> [] \<and>
          (\<forall>v\<in>set (visible_values g ax). nunset \<le> v \<and> v \<le> unset) \<longrightarrow>
            row (range_v (get_range unset nunset 2 g)) ax = padded (visible_values g ax)) \<and>
         (s < length (data g) \<and> toggled (series_radios g ! s) \<and>
          p < length (fst (data g ! s)) \<and> p < length (snd (data g ! s)) \<and>
          fst (data g ! s) ! p = Finite xv \<and> snd (data g ! s) ! p = Finite yv \<longrightarrow>
            in_range (get_range unset nunset 2 g) xv yv)"
proof (intro conjI impI)
  assume "visible_values g ax \<noteq> [] \<and>
          (\<forall>v\<in>set (visible_values g ax). nunset \<le> v \<and> v \<le> unset)"
  then show "row (range_v (get_range unset nunset 2 g)) ax = padded (visible_values g ax)"
    by (simp add: get_range_both_row scanned_padded)
next
  assume a: "s < length (data g) \<and> toggled (series_radios g ! s) \<and>
          p < length (fst (data g ! s)) \<and> p < length (snd (data g ! s)) \<and>
          fst (data g ! s) ! p = Finite xv \<and> snd (data g ! s) ! p = Finite yv"
  then have "xv \<in> set (visible_values g False)"
    using visible_values_mem [of s g p False xv] by (simp add: row_def)
  moreover from a have "yv \<in> set (visible_values g True)"
    using visible_values_mem [of s g p True yv] by (simp add: row_def)
  ultimately show "in_range (get_range unset nunset 2 g) xv yv"
    using scanned_covers [of xv "visible_values g False" unset nunset]
          scanned_covers [of yv "visible_values g True" unset nunset]
    by (simp add: in_range_def get_range_both_row)
qed

theorem get_range_pads_and_covers_witness:
  "length (series_radios example_graph) = length (data example_graph) \<and>
   row (range_v (get_range 1000 (- 1000) 2 example_graph)) False =
     \<lparr>lo = - 0.04, hi = 4.04, wd = 4.08\<rparr> \<and>
   in_range (get_range 1000 (- 1000) 2 example_graph) 2 4"
proof -
  have len: "length (series_radios example_graph) = length (data example_graph)"
    by (simp add: example_graph_def)
  have vis: "visible_values example_graph False = [0, 1, 2, 3, 4]"
    by (simp add: visible_values_def example_graph_def radio_on_def row_def)
  have pt: "0 < length (data example_graph) \<and> toggled (series_radios example_graph ! 0) \<and>
          2 < length (fst (data example_graph ! 0)) \<and> 2 < length (snd (data example_graph ! 0)) \<and>
          fst (data example_graph ! 0) ! 2 = Finite 2 \<and> snd (data example_graph ! 0) ! 2 = Finite 4"
    by (simp add: example_graph_def radio_on_def)
  have pad: "padded [0, 1, 2, 3, 4] = \<lparr>lo = - 0.04, hi = 4.04, wd = 4.08\<rparr>"
    by (simp add: padded_def)
  from get_range_pads_and_covers [OF len, of False "- 1000" 1000 0 2 2 4] vis pt pad len
  show ?thesis by simp
qed

section \<open>Properties of the rounding\<close>

lemma pow2_powr: "pow2 e = 2 powr (of_int e)"
proof (cases "0 \<le> e")
  case True
  then have "(2::real) powr (of_int e) = 2 powr (real (nat e))" by simp
  also have "\<dots> = 2 ^ nat e" by (simp add: powr_realpow)
  finally show ?thesis using True by (simp add: pow2_def)
next
  case False
  then have "(2::real) powr (of_int e) = 2 powr (- real (nat (- e)))" by simp
  also have "\<dots> = 1 / 2 ^ nat (- e)" by (simp add: powr_minus_divide powr_realpow)
  finally show ?thesis using False by (simp add: pow2_def)
qed

lemma pow2_pos [simp]: "0 < pow2 e"
  by (simp add: pow2_powr)

lemma pow2_nz [simp]: "pow2 e \<noteq> 0"
  using pow2_pos [of e] by linarith

lemma pow2_add: "pow2 (a + b) = pow2 a * pow2 b"
  by (simp add: pow2_powr powr_add)

lemma pow2_less_iff: "pow2 a < pow2 b \<longleftrightarrow> a < b"
  by (simp add: pow2_powr)

lemma pow2_le_iff: "pow2 a \<le> pow2 b \<longleftrightarrow> a \<le> b"
  by (simp add: pow2_powr)

lemma expo_bounds:
  assumes "x \<noteq> 0"
  shows "pow2 (expo x) \<le> \<bar>x\<bar> \<and> \<bar>x\<bar> < pow2 (expo x + 1)"
proof (cases "1 \<le> \<bar>x\<bar>")
  case True
  define n where "n = \<lfloor>\<bar>x\<bar>\<rfloor>"
  have n: "0 < n" using True by (simp add: n_def)
  have e: "expo x = bitlen n - 1" using True by (simp add: expo_def n_def)
  have bl: "0 < bitlen n" using n bitlen_bounds [of n] bitlen_nonneg [of n]
    by (metis bitlen_eq_zero_iff less_le not_less)
  from bitlen_bounds [OF n] have b: "2 ^ nat (bitlen n - 1) \<le> n" "n < 2 ^ nat (bitlen n)" by auto
  have "pow2 (bitlen n - 1) = of_int (2 ^ nat (bitlen n - 1))" using bl by (simp add: pow2_def)
  also have "\<dots> \<le> of_int n" using b(1) of_int_le_iff by blast
  also have "\<dots> \<le> \<bar>x\<bar>" by (simp add: n_def)
  finally have 1: "pow2 (expo x) \<le> \<bar>x\<bar>" by (simp add: e)
  have "n + 1 \<le> 2 ^ nat (bitlen n)" using b(2) by simp
  then have "(of_int (n + 1) :: real) \<le> of_int (2 ^ nat (bitlen n))" using of_int_le_iff by blast
  moreover have "\<bar>x\<bar> < of_int (n + 1)" unfolding n_def by linarith
  ultimately have "\<bar>x\<bar> < of_int (2 ^ nat (bitlen n))" by linarith
  also have "\<dots> = pow2 (bitlen n)" using bl by (simp add: pow2_def)
  finally have 2: "\<bar>x\<bar> < pow2 (expo x + 1)" by (simp add: e)
  show ?thesis using 1 2 by simp
next
  case False
  define y where "y = 1 / \<bar>x\<bar>"
  define m where "m = \<lceil>y\<rceil> - 1"
  have x: "0 < \<bar>x\<bar>" "\<bar>x\<bar> < 1" using assms False by simp_all
  have y: "1 < y" using x by (simp add: y_def)
  have m: "0 < m" using y unfolding m_def by linarith
  have my: "of_int m < y" "y \<le> of_int m + 1" unfolding m_def by linarith+
  have e: "expo x = - bitlen m" using False by (simp add: expo_def m_def y_def)
  have bl: "0 < bitlen m" using m bitlen_nonneg [of m]
    by (metis bitlen_eq_zero_iff less_le not_less)
  from bitlen_bounds [OF m] have b: "2 ^ nat (bitlen m - 1) \<le> m" "m < 2 ^ nat (bitlen m)" by auto
  have "m + 1 \<le> 2 ^ nat (bitlen m)" using b(2) by simp
  then have "(of_int (m + 1) :: real) \<le> of_int (2 ^ nat (bitlen m))" using of_int_le_iff by blast
  then have yu: "y \<le> 2 ^ nat (bitlen m)" using my(2) by simp
  have "(of_int (2 ^ nat (bitlen m - 1)) :: real) \<le> of_int m" using b(1) of_int_le_iff by blast
  then have "(2::real) ^ nat (bitlen m - 1) \<le> of_int m" by simp
  then have yl: "2 ^ nat (bitlen m - 1) < y" using my(1) by linarith
  have p1: "pow2 (- bitlen m) = 1 / 2 ^ nat (bitlen m)" using bl by (simp add: pow2_def)
  have "1 / 2 ^ nat (bitlen m) \<le> 1 / y" using yu y by (simp add: frac_le)
  then have 1: "pow2 (expo x) \<le> \<bar>x\<bar>" using x by (simp add: e p1 y_def)
  have p2: "pow2 (expo x + 1) = 1 / 2 ^ nat (bitlen m - 1)"
  proof (cases "bitlen m = 1")
    case True
    then show ?thesis by (simp add: pow2_def e)
  next
    case False
    then have "expo x + 1 < 0" using bl by (simp add: e)
    moreover have "- (expo x + 1) = bitlen m - 1" by (simp add: e)
    ultimately show ?thesis by (simp add: pow2_def)
  qed
  have "1 / y < 1 / 2 ^ nat (bitlen m - 1)" using yl by (simp add: frac_less2)
  then have 2: "\<bar>x\<bar> < pow2 (expo x + 1)" using x unfolding p2 by (simp add: y_def)
  show ?thesis using 1 2 by simp
qed

lemma expo_unique:
  assumes "pow2 e \<le> \<bar>x\<bar>" and "\<bar>x\<bar> < pow2 (e + 1)"
  shows "expo x = e"
proof -
  have "0 < \<bar>x\<bar>" using assms(1) pow2_pos [of e] by linarith
  then have "x \<noteq> 0" by simp
  from expo_bounds [OF this] have b: "pow2 (expo x) \<le> \<bar>x\<bar>" "\<bar>x\<bar> < pow2 (expo x + 1)" by auto
  have "pow2 e < pow2 (expo x + 1)" using assms(1) b(2) by linarith
  moreover have "pow2 (expo x) < pow2 (e + 1)" using assms(2) b(1) by linarith
  ultimately show ?thesis by (simp add: pow2_less_iff)
qed

lemma round_even_near: "\<bar>of_int (round_even y) - y\<bar> \<le> 1 / 2"
  unfolding round_even_def Let_def by (auto simp: abs_le_iff)

lemma round_even_of_int [simp]: "round_even (of_int n) = n"
  by (simp add: round_even_def)

lemma fl_eval:
  assumes "pow2 e \<le> \<bar>x\<bar>" and "\<bar>x\<bar> < pow2 (e + 1)"
  shows "fl x = of_int (round_even (x / pow2 (e - 52))) * pow2 (e - 52)"
proof -
  have "0 < \<bar>x\<bar>" using assms(1) pow2_pos [of e] by linarith
  then have "x \<noteq> 0" by simp
  then show ?thesis using expo_unique [OF assms] by (simp add: fl_def)
qed

lemma fl_zero [simp]: "fl 0 = 0"
  by (simp add: fl_def)

lemma fl_error: "\<bar>fl x - x\<bar> \<le> \<bar>x\<bar> / 2 ^ 53"
proof (cases "x = 0")
  case True
  then show ?thesis by simp
next
  case False
  define p where "p = pow2 (expo x - 52)"
  have p: "0 < p" by (simp add: p_def)
  have f: "fl x = of_int (round_even (x / p)) * p" using False by (simp add: fl_def p_def)
  have "fl x - x = (of_int (round_even (x / p)) - x / p) * p" using p by (simp add: f field_simps)
  then have "\<bar>fl x - x\<bar> = \<bar>of_int (round_even (x / p)) - x / p\<bar> * p"
    using p by (simp add: abs_mult)
  also have "\<dots> \<le> (1 / 2) * p" using round_even_near [of "x / p"] p
    by (intro mult_right_mono) simp_all
  also have "\<dots> = pow2 (expo x) / 2 ^ 53"
  proof -
    have "p = pow2 (expo x) * pow2 (- 52)" using pow2_add [of "expo x" "- 52"] by (simp add: p_def)
    moreover have "pow2 (- 52) = 1 / 2 ^ 52" by (simp add: pow2_def)
    ultimately show ?thesis by simp
  qed
  also have "\<dots> \<le> \<bar>x\<bar> / 2 ^ 53" using expo_bounds [OF False] by (simp add: divide_right_mono)
  finally show ?thesis .
qed

lemma fl_dyadic:
  assumes "\<bar>m\<bar> < 2 ^ 53"
  shows "fl (of_int m * pow2 k) = of_int m * pow2 k"
proof (cases "m = 0")
  case True
  then show ?thesis by simp
next
  case False
  define x where "x = of_int m * pow2 k"
  have x0: "x \<noteq> 0" using False by (simp add: x_def)
  define e where "e = expo x"
  from expo_bounds [OF x0] have b: "pow2 e \<le> \<bar>x\<bar>" by (simp add: e_def)
  have "\<bar>pow2 k\<bar> = pow2 k" using pow2_pos [of k] by linarith
  then have "\<bar>x\<bar> = of_int \<bar>m\<bar> * pow2 k" by (simp add: x_def abs_mult)
  also have "\<dots> < 2 ^ 53 * pow2 k"
  proof -
    have "(of_int \<bar>m\<bar> :: real) < of_int (2 ^ 53)" using assms of_int_less_iff by blast
    then show ?thesis by simp
  qed
  also have "\<dots> = pow2 (53 + k)" by (simp add: pow2_add) (simp add: pow2_def)
  finally have "pow2 e < pow2 (53 + k)" using b by linarith
  then have ek: "0 \<le> k - e + 52" by (simp add: pow2_less_iff)
  have "pow2 k = pow2 (k - e + 52) * pow2 (e - 52)" using pow2_add [of "k - e + 52" "e - 52"] by simp
  then have "x / pow2 (e - 52) = of_int m * pow2 (k - e + 52)" by (simp add: x_def)
  also have "\<dots> = of_int (m * 2 ^ nat (k - e + 52))" using ek by (simp add: pow2_def)
  finally have q: "x / pow2 (e - 52) = of_int (m * 2 ^ nat (k - e + 52))" .
  have "fl x = of_int (round_even (x / pow2 (e - 52))) * pow2 (e - 52)"
    using x0 by (simp add: fl_def e_def)
  also have "\<dots> = x / pow2 (e - 52) * pow2 (e - 52)" unfolding q round_even_of_int by simp
  also have "\<dots> = x" by simp
  finally show ?thesis by (simp add: x_def)
qed

lemma fl_of_int: "\<bar>m\<bar> < 2 ^ 53 \<Longrightarrow> fl (of_int m) = of_int m"
  using fl_dyadic [of m 0] by (simp add: pow2_def)


lemma fl_error_numeral: "\<bar>fl x - x\<bar> * 9007199254740992 \<le> \<bar>x\<bar>"
  using fl_error [of x] by (simp add: field_simps)

text \<open>
  The errors of a chain of rounded operations, each at most \<open>2\<^sup>-\<^sup>5\<^sup>3\<close> of its result:
  a sum with \<open>r\<close> and the difference with \<open>r\<close> again, a product, and the sum with a
  bound.
\<close>

lemma round_chain1:
  fixes a w q r :: real
  assumes "0 \<le> q"
    and "\<bar>a - q\<bar> * 9007199254740992 \<le> \<bar>q\<bar>"
    and "\<bar>w - a\<bar> * 9007199254740992 \<le> \<bar>a + r\<bar>"
  shows "\<bar>w - q\<bar> * 9007199254740992 \<le> 3 * q + \<bar>r\<bar>"
  using assms by argo

lemma round_chain2:
  fixes d w q r :: real
  assumes "0 \<le> q"
    and "\<bar>w - q\<bar> * 9007199254740992 \<le> 3 * q + \<bar>r\<bar>"
    and "\<bar>d - w\<bar> * 9007199254740992 \<le> \<bar>w\<bar>"
  shows "\<bar>d - q\<bar> * 9007199254740992 \<le> 5 * q + 2 * \<bar>r\<bar>"
  using assms by argo

lemma round_chain:
  fixes a v d q r :: real
  assumes "0 \<le> q"
    and "\<bar>a - q\<bar> * 9007199254740992 \<le> \<bar>q\<bar>"
    and "\<bar>v - (a + r)\<bar> * 9007199254740992 \<le> \<bar>a + r\<bar>"
    and "\<bar>d - (v - r)\<bar> * 9007199254740992 \<le> \<bar>v - r\<bar>"
  shows "\<bar>d - q\<bar> * 9007199254740992 \<le> 5 * q + 2 * \<bar>r\<bar>"
proof -
  have "\<bar>(v - r) - a\<bar> = \<bar>v - (a + r)\<bar>" by (simp add: algebra_simps)
  then have "\<bar>(v - r) - a\<bar> * 9007199254740992 \<le> \<bar>a + r\<bar>" using assms(3) by (simp only:)
  with assms(1,2) have "\<bar>(v - r) - q\<bar> * 9007199254740992 \<le> 3 * q + \<bar>r\<bar>"
    by (rule round_chain1)
  with assms(1) show ?thesis using assms(4) by (rule round_chain2)
qed

lemma round_product:
  fixes p x t k :: real
  assumes "0 \<le> t" and "0 \<le> k"
    and "\<bar>x - t\<bar> * 9007199254740992 \<le> 5 * t + 2 * k"
    and "\<bar>p - x\<bar> * 9007199254740992 \<le> \<bar>x\<bar>"
  shows "\<bar>p - t\<bar> * 9007199254740992 \<le> 7 * t + 3 * k"
  using assms by argo

lemma round_anchor:
  fixes b p t c y :: real
  assumes "0 \<le> c"
    and "\<bar>p - t\<bar> * 9007199254740992 \<le> c"
    and "\<bar>y - (b + p)\<bar> * 9007199254740992 \<le> \<bar>b + p\<bar>"
  shows "\<bar>y - (b + t)\<bar> * 9007199254740992 \<le> \<bar>b\<bar> + \<bar>t\<bar> + 2 * c"
  using assms by argo

lemma below_one:
  fixes e c :: real
  assumes "\<bar>e\<bar> * 9007199254740992 \<le> c" and "c < 9007199254740992"
  shows "\<bar>e\<bar> < 1"
  using assms by argo

lemma fl_there_and_back:
  fixes t s r0 :: real
  assumes s: "0 < s" and t: "0 \<le> t"
  shows "\<bar>fl (fl (fl (fl (t / s) + r0) - r0) * s) - t\<bar> * 9007199254740992 \<le>
         7 * t + 3 * (\<bar>r0\<bar> * s)"
proof -
  define q where "q = t / s"
  define a where "a = fl q"
  define v where "v = fl (a + r0)"
  define d where "d = fl (v - r0)"
  have q: "0 \<le> q" using s t by (simp add: q_def)
  have qs: "q * s = t" using s by (simp add: q_def)
  have c: "\<bar>d - q\<bar> * 9007199254740992 \<le> 5 * q + 2 * \<bar>r0\<bar>"
    using q unfolding a_def v_def d_def
    by (rule round_chain) (rule fl_error_numeral)+
  have "d * s - t = (d - q) * s" by (simp add: qs left_diff_distrib)
  then have "\<bar>d * s - t\<bar> * 9007199254740992 = (\<bar>d - q\<bar> * 9007199254740992) * s"
    using s by (simp add: abs_mult)
  also have "\<dots> \<le> (5 * q + 2 * \<bar>r0\<bar>) * s"
    using c s by (intro mult_right_mono) simp_all
  also have "\<dots> = 5 * t + 2 * (\<bar>r0\<bar> * s)"
    using qs by (simp add: distrib_right mult.assoc)
  finally have ds: "\<bar>d * s - t\<bar> * 9007199254740992 \<le> 5 * t + 2 * (\<bar>r0\<bar> * s)" .
  have k: "0 \<le> \<bar>r0\<bar> * s" using s by simp
  have "\<bar>fl (d * s) - t\<bar> * 9007199254740992 \<le> 7 * t + 3 * (\<bar>r0\<bar> * s)"
    using t k ds by (rule round_product) (rule fl_error_numeral)
  then show ?thesis
    by (simp only: q_def a_def v_def d_def)
qed

lemma fl_round_trip:
  fixes t s r0 b :: real
  assumes s: "0 < s" and t: "0 \<le> t"
    and c: "\<bar>b\<bar> + 15 * t + 6 * (\<bar>r0\<bar> * s) < 9007199254740992"
  shows "\<bar>fl (b + fl (fl (fl (fl (t / s) + r0) - r0) * s)) - (b + t)\<bar> < 1"
    and "\<bar>fl (b - fl (fl (fl (fl (t / s) + r0) - r0) * s)) - (b - t)\<bar> < 1"
proof -
  define p where "p = fl (fl (fl (fl (t / s) + r0) - r0) * s)"
  define k where "k = 7 * t + 3 * (\<bar>r0\<bar> * s)"
  have k: "0 \<le> k" using s t by (simp add: k_def)
  have e: "\<bar>p - t\<bar> * 9007199254740992 \<le> k"
    unfolding p_def k_def using s t by (rule fl_there_and_back)
  have c': "\<bar>b\<bar> + \<bar>t\<bar> + 2 * k < 9007199254740992"
    using c t by (simp add: k_def)
  have "\<bar>fl (b + p) - (b + t)\<bar> * 9007199254740992 \<le> \<bar>b\<bar> + \<bar>t\<bar> + 2 * k"
    using k e by (rule round_anchor) (rule fl_error_numeral)
  then have "\<bar>fl (b + p) - (b + t)\<bar> < 1"
    using c' by (rule below_one)
  then show "\<bar>fl (b + fl (fl (fl (fl (t / s) + r0) - r0) * s)) - (b + t)\<bar> < 1"
    by (simp only: p_def)
  have e': "\<bar>(- p) - (- t)\<bar> * 9007199254740992 \<le> k"
    using e by (simp add: abs_minus_commute)
  have c'': "\<bar>b\<bar> + \<bar>- t\<bar> + 2 * k < 9007199254740992"
    using c' by simp
  have "\<bar>fl (b + (- p)) - (b + (- t))\<bar> * 9007199254740992 \<le> \<bar>b\<bar> + \<bar>- t\<bar> + 2 * k"
    using k e' by (rule round_anchor) (rule fl_error_numeral)
  then have "\<bar>fl (b + (- p)) - (b + (- t))\<bar> < 1"
    using c'' by (rule below_one)
  then show "\<bar>fl (b - fl (fl (fl (fl (t / s) + r0) - r0) * s)) - (b - t)\<bar> < 1"
    by (simp add: p_def)
qed

section \<open>Properties of the coordinate transformations\<close>

lemma to_int_of_int [simp]: "to_int (of_int n) = n"
  by (simp add: to_int_def)

text \<open>
  The truncation in \<open>coord\<close> costs at most one pixel: a value less than a pixel away
  from \<open>p\<close> is drawn within one pixel of \<open>p\<close>.
\<close>

lemma to_int_near:
  fixes e :: real
  assumes "\<bar>e\<bar> < 1"
  shows "\<bar>to_int (of_int p + e) - p\<bar> \<le> 1"
proof -
  have f: "\<lfloor>of_int p + e\<rfloor> = p + \<lfloor>e\<rfloor>"
    by simp
  have c: "\<lceil>of_int p + e\<rceil> = p + \<lceil>e\<rceil>"
    using ceiling_add_of_int [of e p] by (simp add: add.commute)
  have "- 1 \<le> \<lfloor>e\<rfloor>" and "\<lfloor>e\<rfloor> \<le> 0" and "0 \<le> \<lceil>e\<rceil>" and "\<lceil>e\<rceil> \<le> 1"
    using assms by (simp_all add: le_floor_iff floor_le_iff ceiling_le_iff le_ceiling_iff abs_less_iff)
  then show ?thesis
    unfolding to_int_def f c by (simp split: if_splits)
qed

lemma to_int_close:
  fixes v :: real
  assumes "\<bar>v - of_int p\<bar> < 1"
  shows "\<bar>to_int v - p\<bar> \<le> 1"
  using to_int_near [of "v - of_int p" p] assms by simp

lemma coord_icoord_axis:
  assumes w: "well_conditioned g ax"
    and l: "lo (row (bounds g) ax) < p" and h: "p < hi (row (bounds g) ax)"
  shows "\<bar>coord g ax (icoord g ax p) - p\<bar> \<le> 1"
proof -
  define s where "s = scale_at (scale g) ax"
  define r0 where "r0 = lo (row (range_v g) ax)"
  have "pow2 (- 500) \<le> s" using w by (simp add: well_conditioned_def s_def)
  then have s: "0 < s" using pow2_pos [of "- 500"] by linarith
  show ?thesis
  proof (cases ax)
    case True
    define b where "b = (of_int (hi (row (bounds g) True)) :: real)"
    define t where "t = (of_int (hi (row (bounds g) True) - p) :: real)"
    have t: "0 \<le> t" using h True by (simp add: t_def)
    have tw: "t \<le> of_int (hi (row (bounds g) True) - lo (row (bounds g) True))"
      using l True unfolding t_def by (simp only: of_int_le_iff)
    have k: "0 \<le> \<bar>r0\<bar> * s" using s by simp
    have "\<bar>b\<bar> + 15 * of_int (hi (row (bounds g) True) - lo (row (bounds g) True)) +
          6 * (\<bar>r0\<bar> * s) < 2 ^ 53"
      using w True by (simp add: well_conditioned_def b_def r0_def s_def)
    then have c: "\<bar>b\<bar> + 15 * t + 6 * (\<bar>r0\<bar> * s) < 9007199254740992"
      using tw by simp
    have "b - t = of_int p" by (simp add: b_def t_def)
    then have "\<bar>fl (b - fl (fl (fl (fl (t / s) + r0) - r0) * s)) - of_int p\<bar> < 1"
      using fl_round_trip(2) [OF s t c] by simp
    then have "\<bar>to_int (fl (b - fl (fl (fl (fl (t / s) + r0) - r0) * s))) - p\<bar> \<le> 1"
      by (rule to_int_close)
    then show ?thesis
      using True by (simp add: coord_def icoord_def b_def t_def s_def r0_def)
  next
    case False
    define b where "b = (of_int (lo (row (bounds g) False)) :: real)"
    define t where "t = (of_int (p - lo (row (bounds g) False)) :: real)"
    have t: "0 \<le> t" using l False by (simp add: t_def)
    have tw: "t \<le> of_int (hi (row (bounds g) False) - lo (row (bounds g) False))"
      using h False unfolding t_def by (simp only: of_int_le_iff)
    have k: "0 \<le> \<bar>r0\<bar> * s" using s by simp
    have "\<bar>b\<bar> + 15 * of_int (hi (row (bounds g) False) - lo (row (bounds g) False)) +
          6 * (\<bar>r0\<bar> * s) < 2 ^ 53"
      using w False by (simp add: well_conditioned_def b_def r0_def s_def)
    then have c: "\<bar>b\<bar> + 15 * t + 6 * (\<bar>r0\<bar> * s) < 9007199254740992"
      using tw by simp
    have "b + t = of_int p" by (simp add: b_def t_def)
    then have "\<bar>fl (b + fl (fl (fl (fl (t / s) + r0) - r0) * s)) - of_int p\<bar> < 1"
      using fl_round_trip(1) [OF s t c] by simp
    then have "\<bar>to_int (fl (b + fl (fl (fl (fl (t / s) + r0) - r0) * s))) - p\<bar> \<le> 1"
      by (rule to_int_close)
    then show ?thesis
      using False by (simp add: coord_def icoord_def b_def t_def s_def r0_def)
  qed
qed

text \<open>
  Claim C5, as the code has it. For a pixel point strictly inside the plot bounds of a
  graph that is well conditioned on both axes (the scales are positive, between
  \<open>2\<^sup>-\<^sup>5\<^sup>0\<^sup>0\<close> and \<open>2\<^sup>5\<^sup>0\<^sup>0\<close>, and on each axis the bound the pixels are counted from,
  15 times the extent of the plot and 6 times the low end of the range in pixels add up
  to less than \<open>2\<^sup>5\<^sup>3\<close>), \<^verbatim>\<open>coord(icoord(p))\<close> is within one pixel of \<open>p\<close> on each axis,
  the rounding of every operation on \<^verbatim>\<open>double\<close> counted.
\<close>

theorem coord_icoord_within_pixel:
  assumes "in_bounds g p"
    and "well_conditioned g False" and "well_conditioned g True"
  shows "\<bar>xc (coord_pt g (icoord_pt g p)) - xc p\<bar> \<le> 1 \<and>
         \<bar>yc (coord_pt g (icoord_pt g p)) - yc p\<bar> \<le> 1"
proof -
  have "\<bar>coord g False (icoord g False (xc p)) - xc p\<bar> \<le> 1"
    using assms(1) by (intro coord_icoord_axis assms(2)) (simp_all add: in_bounds_def)
  moreover have "\<bar>coord g True (icoord g True (yc p)) - yc p\<bar> \<le> 1"
    using assms(1) by (intro coord_icoord_axis assms(3)) (simp_all add: in_bounds_def)
  ultimately show ?thesis
    by (simp add: coord_pt_def icoord_pt_def)
qed

theorem coord_icoord_within_pixel_witness:
  "in_bounds example_graph \<lparr>xc = 640, yc = 360\<rparr> \<and>
   well_conditioned example_graph False \<and> well_conditioned example_graph True \<and>
   \<bar>xc (coord_pt example_graph (icoord_pt example_graph \<lparr>xc = 640, yc = 360\<rparr>)) - 640\<bar> \<le> 1 \<and>
   \<bar>yc (coord_pt example_graph (icoord_pt example_graph \<lparr>xc = 640, yc = 360\<rparr>)) - 360\<bar> \<le> 1"
proof -
  have a: "in_bounds example_graph \<lparr>xc = 640, yc = 360\<rparr>"
    by (simp add: in_bounds_def example_graph_def row_def)
  have b: "well_conditioned example_graph False"
    by (simp add: well_conditioned_def scale_at_def example_graph_def row_def pow2_def)
  have c: "well_conditioned example_graph True"
    by (simp add: well_conditioned_def scale_at_def example_graph_def row_def pow2_def)
  show ?thesis using a b c coord_icoord_within_pixel [OF a b c] by simp
qed

text \<open>
  The claim as stated fails: positive scale factors from a range of positive width are
  not enough. In \<open>far_graph\<close> the x range is \<open>[4e15, 4e15 + 1]\<close>, which \<^verbatim>\<open>set_range\<close>
  accepts and \<^verbatim>\<open>prepare\<close> keeps, with the scale 1208 that \<^verbatim>\<open>prepare\<close> computes. For the
  pixel 338, a quarter of the way across the plot, \<^verbatim>\<open>icoord\<close> rounds \<open>4e15 + 0.25\<close> to
  \<open>4e15\<close>, and \<^verbatim>\<open>coord\<close> returns pixel 36, which is 302 pixels away.
\<close>

theorem coord_icoord_far_counterexample:
  "in_bounds far_graph \<lparr>xc = 338, yc = 360\<rparr> \<and>
   0 < scale_at (scale far_graph) False \<and> 0 < scale_at (scale far_graph) True \<and>
   lo (row (range_v far_graph) False) < hi (row (range_v far_graph) False) \<and>
   range_v (set_range False 4000000000000000 4000000000000001 far_graph) = range_v far_graph \<and>
   range_v (prepare far_graph) = range_v far_graph \<and>
   scale (prepare far_graph) = scale far_graph \<and>
   icoord far_graph False 338 = 4000000000000000 \<and>
   xc (coord_pt far_graph (icoord_pt far_graph \<lparr>xc = 338, yc = 360\<rparr>)) = 36 \<and>
   \<not> \<bar>xc (coord_pt far_graph (icoord_pt far_graph \<lparr>xc = 338, yc = 360\<rparr>)) -
       xc \<lparr>xc = 338, yc = 360\<rparr>\<bar> \<le> 1"
proof -
  have q: "fl (1 / 4) = 1 / 4"
    using fl_dyadic [of 1 "- 2"] by (simp add: pow2_def)
  have "fl (4000000000000000 + 1 / 4) =
        of_int (round_even ((4000000000000000 + 1 / 4) / pow2 (51 - 52))) * pow2 (51 - 52)"
    by (rule fl_eval) (simp_all add: pow2_def)
  then have r: "fl (16000000000000001 / 4) = 4000000000000000"
    by (simp add: pow2_def round_even_def)
  have b: "fl 36 = 36"
    using fl_of_int [of 36] by simp
  have i: "icoord far_graph False 338 = 4000000000000000"
    by (simp add: icoord_def far_graph_def example_graph_def row_def scale_at_def q r)
  have c: "coord far_graph False 4000000000000000 = 36"
    by (simp add: coord_def far_graph_def example_graph_def row_def scale_at_def b to_int_def)
  have x: "xc (coord_pt far_graph (icoord_pt far_graph \<lparr>xc = 338, yc = 360\<rparr>)) = 36"
    by (simp add: coord_pt_def icoord_pt_def i c)
  have s: "range_v (set_range False 4000000000000000 4000000000000001 far_graph) =
           range_v far_graph"
    by (simp add: set_range_def Let_def far_graph_def example_graph_def row_def set_row_def)
  have p: "range_v (prepare far_graph) = range_v far_graph"
    by (simp add: prepare_def Let_def set_bounds_def far_graph_def example_graph_def row_def)
  have m: "min_border (far_graph\<lparr>drawn := False\<rparr>) = 36"
    by (simp add: min_border_def far_graph_def example_graph_def to_int_def)
  have sc: "scale (prepare far_graph) = scale far_graph"
    unfolding prepare_def Let_def set_bounds_def m
    by (simp add: far_graph_def example_graph_def row_def)
  show ?thesis
    unfolding x using i s p sc
    by (simp add: in_bounds_def far_graph_def example_graph_def row_def scale_at_def)
qed

section \<open>Properties of the click classification\<close>

lemma shift_test: "(w AND ShiftMask \<noteq> 0) \<longleftrightarrow> bit w 0" for w :: "32 word"
  using and_exp_eq_0_iff_not_bit [of w 0] by (simp add: ShiftMask_def)

lemma control_test: "(w AND ControlMask \<noteq> 0) \<longleftrightarrow> bit w 2" for w :: "32 word"
  using and_exp_eq_0_iff_not_bit [of w 2] by (simp add: ControlMask_def)

text \<open>
  Claim C6. The value of a \<^verbatim>\<open>Click\<close> taken from a button event follows one fixed rule,
  tried in this order: button 2 or the Shift modifier gives 2 (scroll class); otherwise
  button 3 or the Control modifier gives 3 (zoom class); otherwise button 1 gives 1
  (centre class); any other button gives 0. So both modifier tests come before the test
  for button 1. The position of the click is that of the event.
\<close>

theorem click_classification:
  "(button e = Button2 \<or> bit (state e) 0 \<longrightarrow> value (click_assign e c) = 2) \<and>
   (button e \<noteq> Button2 \<and> \<not> bit (state e) 0 \<and> (button e = Button3 \<or> bit (state e) 2) \<longrightarrow>
      value (click_assign e c) = 3) \<and>
   (button e = Button1 \<and> \<not> bit (state e) 0 \<and> \<not> bit (state e) 2 \<longrightarrow>
      value (click_assign e c) = 1) \<and>
   (button e \<noteq> Button1 \<and> button e \<noteq> Button2 \<and> button e \<noteq> Button3 \<and>
    \<not> bit (state e) 0 \<and> \<not> bit (state e) 2 \<longrightarrow>
      value (click_assign e c) = 0) \<and>
   xc (click_assign e c) = ev_x e \<and> yc (click_assign e c) = ev_y e"
  by (simp add: click_assign_def Let_def shift_test control_test Button1_def Button2_def Button3_def)

theorem click_classification_witness:
  "value (click_assign \<lparr>ev_x = 7, ev_y = 9, state = 1, button = 1\<rparr> no_click) = 2 \<and>
   value (click_assign \<lparr>ev_x = 7, ev_y = 9, state = 4, button = 1\<rparr> no_click) = 3 \<and>
   value (click_assign \<lparr>ev_x = 7, ev_y = 9, state = 5, button = 3\<rparr> no_click) = 2 \<and>
   value (click_assign \<lparr>ev_x = 7, ev_y = 9, state = 0, button = 1\<rparr> no_click) = 1 \<and>
   value (click_assign \<lparr>ev_x = 7, ev_y = 9, state = 0, button = 4\<rparr> no_click) = 0"
proof -
  have b: "bit (1 :: 32 word) 0" "\<not> bit (4 :: 32 word) 0" "bit (4 :: 32 word) 2"
    "bit (5 :: 32 word) 0" "\<not> bit (0 :: 32 word) 0" "\<not> bit (0 :: 32 word) 2"
    by (simp_all add: bit_numeral_iff bit_iff_odd)
  show ?thesis
    using click_classification [of "\<lparr>ev_x = 7, ev_y = 9, state = 1, button = 1\<rparr>" no_click]
      click_classification [of "\<lparr>ev_x = 7, ev_y = 9, state = 4, button = 1\<rparr>" no_click]
      click_classification [of "\<lparr>ev_x = 7, ev_y = 9, state = 5, button = 3\<rparr>" no_click]
      click_classification [of "\<lparr>ev_x = 7, ev_y = 9, state = 0, button = 1\<rparr>" no_click]
      click_classification [of "\<lparr>ev_x = 7, ev_y = 9, state = 0, button = 4\<rparr>" no_click]
    by (simp add: b Button1_def Button2_def Button3_def)
qed


section \<open>Properties of the toggle controls\<close>

text \<open>
  Claim C7. A press while the control is hidden records a swallow and returns the hit
  test, without flipping the control and without any call. The next release takes the
  swallow back and returns the hit test, again without flipping the control and without
  the release action. The release after that is an ordinary one: on a hit it draws,
  calls the release action and flips a control that is not sticky.
\<close>

theorem hidden_press_swallows_release:
  assumes "\<not> visible"
    and "press visible contains p r = (h1, r1, c1)"
    and "release contains q r1 = (h2, r2, c2)"
    and "release contains q' r2 = (h3, r3, c3)"
  shows "skip_release r1 \<and> h1 = contains p \<and> c1 = [] \<and> toggled r1 = toggled r \<and>
         h2 = contains q \<and> c2 = [] \<and> toggled r2 = toggled r \<and> \<not> skip_release r2 \<and>
         h3 = contains q' \<and> \<not> skip_release r3 \<and>
         c3 = (if contains q' then [Draw, ReleaseAction] else []) \<and>
         toggled r3 = (if contains q' \<and> \<not> togglable r then \<not> toggled r else toggled r)"
  using assms by (auto simp: press_def release_def split: if_splits)

theorem hidden_press_swallows_release_witness:
  "press False (\<lambda>p. p = (0::nat)) 0 plain_radio =
     (True, plain_radio\<lparr>skip_release := True\<rparr>, []) \<and>
   release (\<lambda>p. p = (0::nat)) 0 (plain_radio\<lparr>skip_release := True\<rparr>) = (True, plain_radio, []) \<and>
   release (\<lambda>p. p = (0::nat)) 0 plain_radio =
     (True, plain_radio\<lparr>toggled := True\<rparr>, [Draw, ReleaseAction]) \<and>
   toggled (plain_radio\<lparr>toggled := True\<rparr>) = (\<not> toggled plain_radio)"
proof -
  have 1: "press False (\<lambda>p. p = (0::nat)) 0 plain_radio =
     (True, plain_radio\<lparr>skip_release := True\<rparr>, [])"
    by (simp add: press_def)
  have 2: "release (\<lambda>p. p = (0::nat)) 0 (plain_radio\<lparr>skip_release := True\<rparr>) =
     (True, plain_radio, [])"
    by (simp add: release_def plain_radio_def)
  have 3: "release (\<lambda>p. p = (0::nat)) 0 plain_radio =
     (True, plain_radio\<lparr>toggled := True\<rparr>, [Draw, ReleaseAction])"
    by (simp add: release_def plain_radio_def)
  have v: "\<not> False" by simp
  from hidden_press_swallows_release [OF v 1 2 3]
  have "toggled (plain_radio\<lparr>toggled := True\<rparr>) = (\<not> toggled plain_radio)"
    by (simp add: plain_radio_def)
  then show ?thesis using 1 2 3 by simp
qed


section \<open>Properties of the view history\<close>

lemma current_config_draw_fields:
  "current_config (g\<lparr>just_configured := a, drawn := True, saved_config := b\<rparr>) = current_config (g\<lparr>drawn := True\<rparr>)"
  "current_config (g\<lparr>just_configured := a, drawn := True\<rparr>) = current_config (g\<lparr>drawn := True\<rparr>)"
  by (simp_all add: current_config_def saved_radios_def SavedConfig.truncate_def)

lemma config_ne_refl [simp]: "\<not> config_ne c c"
  by (simp add: config_ne_def dne_def)

lemma draw_history:
  "saved_config (draw g) =
     (if \<not> small_move g \<and>
         (saved_config g = [] \<or> config_ne (current_config (g\<lparr>drawn := True\<rparr>)) (last (saved_config g)))
      then saved_config g @ [current_config (g\<lparr>drawn := True\<rparr>)]
      else saved_config g)"
  by (simp add: draw_def Let_def save_config_def current_config_draw_fields)

lemma draw_frame:
  "small_move (draw g) = small_move g"
  "current_config ((draw g)\<lparr>drawn := True\<rparr>) = current_config (g\<lparr>drawn := True\<rparr>)"
  by (simp_all add: draw_def Let_def save_config_def current_config_def saved_radios_def SavedConfig.truncate_def)

lemma current_config_fields:
  "current_config g =
     \<lparr>arc_radius = arc_radius g, arc_width = arc_width g, line_width = line_width g,
      line_type = line_type g, series_order = series_order g, range_v = range_v g,
      max_range = max_range g, zoomed = zoomed g, drawn = drawn g,
      radio_states = map toggled (saved_radios g)\<rparr>"
  by (simp add: current_config_def SavedConfig.truncate_def)

lemma prepare_frame:
  "small_move (prepare g) = small_move g"
  "saved_config (prepare g) = saved_config g"
  "arc_radius (prepare g) = arc_radius g"
  "arc_width (prepare g) = arc_width g"
  "line_width (prepare g) = line_width g"
  "line_type (prepare g) = line_type g"
  "series_order (prepare g) = series_order g"
  "max_range (prepare g) = max_range g"
  "zoomed (prepare g) = zoomed g"
  "saved_radios (prepare g) = saved_radios g"
  by (simp_all add: prepare_def Let_def set_bounds_def saved_radios_def)

lemma prepare_range:
  "range_v (prepare g) = (if unreasonable g then max_range g else range_v g)"
  by (simp add: prepare_def Let_def set_bounds_def unreasonable_def)

lemma draw_frame2:
  "arc_radius (draw g) = arc_radius g"
  "arc_width (draw g) = arc_width g"
  "line_width (draw g) = line_width g"
  "line_type (draw g) = line_type g"
  "series_order (draw g) = series_order g"
  "range_v (draw g) = range_v g"
  "max_range (draw g) = max_range g"
  "zoomed (draw g) = zoomed g"
  "saved_radios (draw g) = saved_radios g"
  by (simp_all add: draw_def Let_def save_config_def saved_radios_def)

lemma saved_radios_drawn: "saved_radios (g\<lparr>drawn := b\<rparr>) = saved_radios g"
  by (simp add: saved_radios_def)

lemma prepare_range_again:
  "range_v (prepare (draw (prepare g))) = range_v (prepare g)"
proof -
  have "unreasonable (draw (prepare g)) \<Longrightarrow> range_v (prepare g) = max_range g"
    by (auto simp: unreasonable_def draw_frame2 prepare_frame prepare_range split: if_splits)
  then show ?thesis
    by (simp add: prepare_range [of "draw (prepare g)"] draw_frame2 prepare_frame)
qed

lemma draw_again_same:
  assumes "small_move h' = small_move h"
    and "current_config (h'\<lparr>drawn := True\<rparr>) = current_config (h\<lparr>drawn := True\<rparr>)"
    and "saved_config h' = saved_config (draw h)"
  shows "saved_config (draw h') = saved_config (draw h)"
  unfolding draw_history [of h'] assms by (simp add: draw_history)

lemma prepare_draw_twice:
  "saved_config (prepare_draw (prepare_draw g)) = saved_config (prepare_draw g)"
proof -
  have c: "current_config ((prepare (draw (prepare g)))\<lparr>drawn := True\<rparr>) =
           current_config ((prepare g)\<lparr>drawn := True\<rparr>)"
    using prepare_range_again [of g]
    by (simp add: current_config_fields saved_radios_drawn draw_frame2 prepare_frame)
  have "saved_config (draw (prepare (draw (prepare g)))) = saved_config (draw (prepare g))"
    by (rule draw_again_same) (simp_all add: c prepare_frame draw_frame)
  then show ?thesis by (simp add: prepare_draw_def)
qed

text \<open>
  Claim C8. A second \<^verbatim>\<open>draw()\<close> right after a \<^verbatim>\<open>draw()\<close> leaves the history as the first
  one left it, and so does a second \<^verbatim>\<open>prepare_draw()\<close> after a \<^verbatim>\<open>prepare_draw()\<close>: the
  two together append at most one snapshot. A \<^verbatim>\<open>draw()\<close> that appends does so at the
  back, and only when the history is empty or \<^verbatim>\<open>operator!=\<close> tells the current
  configuration from the last entry.
\<close>

theorem draw_twice_appends_once:
  "saved_config (draw (draw g)) = saved_config (draw g) \<and>
   saved_config (prepare_draw (prepare_draw g)) = saved_config (prepare_draw g) \<and>
   length (saved_config (draw (draw g))) \<le> length (saved_config g) + 1 \<and>
   (saved_config (draw g) \<noteq> saved_config g \<longrightarrow>
      saved_config (draw g) = saved_config g @ [current_config (g\<lparr>drawn := True\<rparr>)] \<and>
      (saved_config g = [] \<or>
       config_ne (current_config (g\<lparr>drawn := True\<rparr>)) (last (saved_config g))))"
proof -
  have 1: "saved_config (draw (draw g)) = saved_config (draw g)"
    by (rule draw_again_same) (simp_all add: draw_frame)
  show ?thesis unfolding 1 by (simp add: draw_history prepare_draw_twice)
qed

theorem draw_twice_appends_once_witness:
  "saved_config (draw (draw example_graph)) = saved_config (draw example_graph) \<and>
   length (saved_config (draw example_graph)) = 1"
proof -
  have "length (saved_config (draw example_graph)) = 1"
    by (simp add: draw_history example_graph_def)
  then show ?thesis using draw_twice_appends_once [of example_graph] by simp
qed

section \<open>Properties of a click\<close>




lemma set_range_frame [simp]:
  "click (set_range ax low high g) = click g"
  "bounds (set_range ax low high g) = bounds g"
  "scale (set_range ax low high g) = scale g"
  "moved (set_range ax low high g) = moved g"
  by (simp_all add: set_range_def Let_def)

lemma zooms_by_set_range [simp]: "zooms_by (set_range ax low high g) z = zooms_by g z"
  by (simp add: zooms_by_def)



lemma affected_set_range [simp]: "affected (set_range ax low high g) ax' = affected g ax'"
  by (simp add: affected_def in_bounds_def get_quadrant_def)




















section \<open>Properties of the movie loop\<close>

lemma release_result: "fst (release contains p r) = contains p"
  by (simp add: release_def)

lemma poll_presses_hit: "fst (poll_presses contains ps r) = list_ex contains ps"
proof (induction ps arbitrary: r)
  case Nil
  then show ?case by simp
next
  case (Cons p ps)
  obtain h r1 cs where rel: "release contains p r = (h, r1, cs)"
    by (cases "release contains p r") auto
  then have "h = contains p"
    using release_result [of contains p r] by simp
  then show ?case using rel Cons.IH [of r1] by simp
qed

lemma inside_max_movie_radios [simp]:
  "inside_max (g\<lparr>movie_radios := m\<rparr>) = inside_max g"
  by (simp add: inside_max_def)

lemma movie_frames_stop:
  "movie_frames contains right fs frame last_frame g = Some g' \<Longrightarrow>
   release_seen contains fs \<or> \<not> inside_max g'"
proof (induction fs arbitrary: frame last_frame g)
  case Nil
  then show ?case by simp
next
  case (Cons f fs)
  obtain stopped r where poll:
    "poll_presses contains (releases f) (row (movie_radios g) right) = (stopped, r)"
    by (cases "poll_presses contains (releases f) (row (movie_radios g) right)") auto
  then have st: "stopped = list_ex contains (releases f)"
    using poll_presses_hit [of contains "releases f" "row (movie_radios g) right"] by simp
  show ?case
  proof (cases stopped)
    case True
    then show ?thesis using st by (simp add: release_seen_def)
  next
    case False
    define g1 where "g1 = g\<lparr>movie_radios := set_row (movie_radios g) right r\<rparr>"
    show ?thesis
    proof (cases "late f")
      case True
      then have "movie_frames contains right fs (frame + 1) last_frame g1 = Some g'"
        using Cons.prems poll False by (simp add: g1_def)
      then have "release_seen contains fs \<or> \<not> inside_max g'"
        by (rule Cons.IH)
      then show ?thesis by (auto simp: release_seen_def)
    next
      case nl: False
      define g2 where "g2 = movie_jump right frame last_frame g1"
      show ?thesis
      proof (cases "inside_max g2")
        case True
        then have "movie_frames contains right fs (frame + 1) frame
                     (prepare_draw (g2\<lparr>small_move := True\<rparr>)) = Some g'"
          using Cons.prems poll False nl
          by (simp add: g1_def [symmetric] Let_def g2_def [symmetric])
        then have "release_seen contains fs \<or> \<not> inside_max g'"
          by (rule Cons.IH)
        then show ?thesis by (auto simp: release_seen_def)
      next
        case ni: False
        then have "g' = g2\<lparr>movie_radios := set_row (movie_radios g2) right
                                  (fst (radio_assign False (row (movie_radios g2) right)))\<rparr>"
          using Cons.prems poll False nl
          by (simp add: g1_def [symmetric] Let_def g2_def [symmetric])
        then show ?thesis using ni by simp
      qed
    qed
  qed
qed

lemma movie_frames_release_stops:
  assumes "list_ex contains (releases f)"
  shows "movie_frames contains right (f # fs) frame last_frame g \<noteq> None"
proof -
  obtain stopped r where poll:
    "poll_presses contains (releases f) (row (movie_radios g) right) = (stopped, r)"
    by (cases "poll_presses contains (releases f) (row (movie_radios g) right)") auto
  then have "stopped"
    using assms poll_presses_hit [of contains "releases f" "row (movie_radios g) right"] by simp
  then show ?thesis using poll by simp
qed

text \<open>
  Claim C9, as the code has it. When the movie loop returns, either one of the releases
  handed to the movie control during the polls hit the control, or the x range, after
  the scroll of a frame, no longer lies strictly inside the x range of all the data.
  Nothing else ends the loop: there is no timeout.
\<close>

theorem movie_stops_on_release_or_edge:
  assumes "movie contains right fs g = Some g'"
  shows "release_seen contains fs \<or> \<not> inside_max g'"
  using assms unfolding movie_def by (rule movie_frames_stop)

theorem movie_stops_on_release_or_edge_witness:
  "movie movie_hit True quiet_frames edge_graph \<noteq> None \<and>
   \<not> release_seen movie_hit quiet_frames \<and>
   \<not> inside_max (the (movie movie_hit True quiet_frames edge_graph))"
proof -
  have n: "movie movie_hit True quiet_frames edge_graph \<noteq> None"
    by (simp add: quiet_frames_def movie_def edge_graph_def example_graph_def
      radio_on_def radio_off_def release_def radio_assign_def movie_jump_def inside_max_def
      range_jump_def set_range_def
      page_rate_def milliseconds_per_frame_def row_def set_row_def dne_def Let_def)
  then have h: "movie movie_hit True quiet_frames edge_graph =
                Some (the (movie movie_hit True quiet_frames edge_graph))"
    by simp
  have r: "\<not> release_seen movie_hit quiet_frames"
    by (simp add: release_seen_def quiet_frames_def)
  from movie_stops_on_release_or_edge [OF h] r
  have "\<not> inside_max (the (movie movie_hit True quiet_frames edge_graph))"
    by blast
  then show ?thesis using n r by simp
qed


text \<open>
  The claim as stated fails: with the x range close to the right end of the data, the
  movie to the right ends after the scroll of its second frame, and no button event has
  arrived at all.
\<close>

theorem movie_stops_without_release_counterexample:
  "\<not> release_seen movie_hit quiet_frames \<and>
   map_option range_v (movie movie_hit True quiet_frames edge_graph) =
     Some (\<lparr>lo = 2.0462, hi = 4.0462, wd = 2\<rparr>, \<lparr>lo = 2, hi = 6, wd = 4\<rparr>) \<and>
   map_option (\<lambda>g. toggled (snd (movie_radios g))) (movie movie_hit True quiet_frames edge_graph) =
     Some False"
  by (simp add: release_seen_def quiet_frames_def movie_def edge_graph_def example_graph_def
      radio_on_def radio_off_def release_def radio_assign_def movie_jump_def inside_max_def
      range_jump_def set_range_def
      page_rate_def milliseconds_per_frame_def row_def set_row_def dne_def Let_def)



section \<open>Properties of randomize_order\<close>

lemma length_swap [simp]: "length (swap i j xs) = length xs"
  by (simp add: swap_def)

lemma mset_swap_list: "i < length xs \<Longrightarrow> j < length xs \<Longrightarrow> mset (swap i j xs) = mset xs"
  unfolding swap_def by (rule mset_swap)

lemma fold_swap_mset:
  "\<forall>i\<in>set ixs. i < length xs \<Longrightarrow>
   length (fold (\<lambda>i ys. swap i (rnd i mod (i + 1)) ys) ixs xs) = length xs \<and>
   mset (fold (\<lambda>i ys. swap i (rnd i mod (i + 1)) ys) ixs xs) = mset xs"
proof (induction ixs arbitrary: xs)
  case Nil
  then show ?case by simp
next
  case (Cons i ixs)
  have i: "i < length xs" using Cons.prems by simp
  have "rnd i mod (i + 1) < i + 1" by (rule mod_less_divisor) simp
  then have j: "rnd i mod (i + 1) < length xs" using i by linarith
  have "\<forall>k\<in>set ixs. k < length (swap i (rnd i mod (i + 1)) xs)"
    using Cons.prems by simp
  from Cons.IH [OF this] show ?case
    using mset_swap_list [OF i j] by simp
qed

lemma mset_shuffle: "mset (shuffle rnd xs) = mset xs"
  unfolding shuffle_def using fold_swap_mset [of "[1 ..< length xs]" xs rnd] by simp

lemma read_files_all_open:
  "\<forall>name\<in>set names. files name \<noteq> None \<Longrightarrow>
   read_files files names acc = Inr (acc @ input_lines files names)"
proof (induction names arbitrary: acc)
  case Nil
  then show ?case by (simp add: input_lines_def)
next
  case (Cons name names)
  then obtain ls where ls: "files name = Some ls" by auto
  have "\<forall>n\<in>set names. files n \<noteq> None" using Cons.prems by simp
  from Cons.IH [OF this, of "acc @ ls"] show ?case
    using ls by (simp add: input_lines_def)
qed

lemma write_lines_good:
  "\<forall>k < length vals. cout_good (n + k) \<and> delivered (n + k) \<Longrightarrow>
   write_lines cout_good delivered vals n out = out\<lparr>cout := cout out @ vals\<rparr>"
proof (induction vals arbitrary: n out)
  case Nil
  then show ?case by simp
next
  case (Cons v vals)
  have g: "cout_good n \<and> delivered n" using Cons.prems by force
  have "\<forall>k < length vals. cout_good (n + 1 + k) \<and> delivered (n + 1 + k)"
  proof (intro allI impI)
    fix k assume "k < length vals"
    then have "Suc k < length (v # vals)" by simp
    then have "cout_good (n + Suc k) \<and> delivered (n + Suc k)" using Cons.prems by blast
    then show "cout_good (n + 1 + k) \<and> delivered (n + 1 + k)" by simp
  qed
  from Cons.IH [OF this] show ?case using g by simp
qed

lemma write_lines_bad:
  "\<not> cout_good n \<Longrightarrow>
   write_lines cout_good delivered (val # vals) n out = out\<lparr>cerr := cerr out @ [''cout closed'']\<rparr>"
  by simp

lemma write_lines_lost:
  "\<forall>k. cout_good k \<and> \<not> delivered k \<Longrightarrow> write_lines cout_good delivered vals n out = out"
  by (induction vals arbitrary: n) simp_all

lemma shuffle_two: "shuffle first_draws [''x'', ''y''] = [''y'', ''x'']"
  by (simp add: shuffle_def swap_def first_draws_def)

text \<open>
  Claim C10, as the code has it. Without a file argument the program ends with status
  1 and no line reaches standard output. With file arguments that all open, and a
  standard output that takes every line (each test of \<^verbatim>\<open>cout\<close> before a line finds the
  stream good, and each line handed to \<^verbatim>\<open>cout\<close> reaches standard output), it ends with
  status 0 and the lines on standard output are, as a multiset, the lines of the files,
  whatever numbers the generator draws.
\<close>

theorem randomize_order_permutes:
  "(length argv < 2 \<longrightarrow>
      exit_status (randomize_order files rnd cout_good delivered argv) = 1 \<and>
      cout (randomize_order files rnd cout_good delivered argv) = []) \<and>
   (2 \<le> length argv \<and> (\<forall>name\<in>set (tl argv). files name \<noteq> None) \<and>
    (\<forall>n < length (input_lines files (tl argv)). cout_good n \<and> delivered n) \<longrightarrow>
      exit_status (randomize_order files rnd cout_good delivered argv) = 0 \<and>
      mset (cout (randomize_order files rnd cout_good delivered argv)) =
        mset (input_lines files (tl argv)))"
proof (intro conjI impI)
  assume "length argv < 2"
  then show "exit_status (randomize_order files rnd cout_good delivered argv) = 1"
    and "cout (randomize_order files rnd cout_good delivered argv) = []"
    by (simp_all add: randomize_order_def)
next
  assume a: "2 \<le> length argv \<and> (\<forall>name\<in>set (tl argv). files name \<noteq> None) \<and>
    (\<forall>n < length (input_lines files (tl argv)). cout_good n \<and> delivered n)"
  then have rd: "read_files files (tl argv) [] = Inr (input_lines files (tl argv))"
    using read_files_all_open [of "tl argv" files "[]"] by simp
  have "length (shuffle rnd (input_lines files (tl argv))) = length (input_lines files (tl argv))"
    using mset_shuffle [of rnd "input_lines files (tl argv)"] by (metis size_mset)
  then have "\<forall>k < length (shuffle rnd (input_lines files (tl argv))).
               cout_good (0 + k) \<and> delivered (0 + k)"
    using a by simp
  then have w: "write_lines cout_good delivered (shuffle rnd (input_lines files (tl argv))) 0
             \<lparr>exit_status = 0, cout = [], cerr = []\<rparr> =
           \<lparr>exit_status = 0, cout = shuffle rnd (input_lines files (tl argv)), cerr = []\<rparr>"
    using write_lines_good [of "shuffle rnd (input_lines files (tl argv))" cout_good 0 delivered
        "\<lparr>exit_status = 0, cout = [], cerr = []\<rparr>"] by simp
  have r: "randomize_order files rnd cout_good delivered argv =
           \<lparr>exit_status = 0, cout = shuffle rnd (input_lines files (tl argv)), cerr = []\<rparr>"
    using a by (simp add: randomize_order_def rd w)
  show "exit_status (randomize_order files rnd cout_good delivered argv) = 0"
    by (simp add: r)
  show "mset (cout (randomize_order files rnd cout_good delivered argv)) =
        mset (input_lines files (tl argv))"
    by (simp add: r mset_shuffle)
qed

theorem randomize_order_permutes_witness:
  "exit_status (randomize_order two_line_file first_draws stays_good all_delivered
      [''randomize_order'', ''a'']) = 0 \<and>
   mset (cout (randomize_order two_line_file first_draws stays_good all_delivered
      [''randomize_order'', ''a''])) = mset [''x'', ''y''] \<and>
   exit_status (randomize_order two_line_file first_draws stays_good all_delivered
      [''randomize_order'']) = 1 \<and>
   cout (randomize_order two_line_file first_draws stays_good all_delivered
      [''randomize_order'']) = []"
proof -
  have a: "2 \<le> length [''randomize_order'', ''a''] \<and>
           (\<forall>name\<in>set (tl [''randomize_order'', ''a'']). two_line_file name \<noteq> None) \<and>
           (\<forall>n < length (input_lines two_line_file (tl [''randomize_order'', ''a''])).
              stays_good n \<and> all_delivered n)"
    by (simp add: two_line_file_def stays_good_def all_delivered_def)
  have b: "length [''randomize_order''] < 2" by simp
  have i: "input_lines two_line_file (tl [''randomize_order'', ''a'']) = [''x'', ''y'']"
    by (simp add: input_lines_def two_line_file_def)
  from randomize_order_permutes [of "[''randomize_order'', ''a'']" two_line_file first_draws
      stays_good all_delivered] a
  have 1: "exit_status (randomize_order two_line_file first_draws stays_good all_delivered
        [''randomize_order'', ''a'']) = 0 \<and>
      mset (cout (randomize_order two_line_file first_draws stays_good all_delivered
        [''randomize_order'', ''a''])) =
        mset (input_lines two_line_file (tl [''randomize_order'', ''a'']))"
    by blast
  from randomize_order_permutes [of "[''randomize_order'']" two_line_file first_draws
      stays_good all_delivered] b
  have 2: "exit_status (randomize_order two_line_file first_draws stays_good all_delivered
        [''randomize_order'']) = 1 \<and>
      cout (randomize_order two_line_file first_draws stays_good all_delivered
        [''randomize_order'']) = []"
    by blast
  show ?thesis using 1 2 unfolding i by simp
qed

text \<open>
  The claim as stated fails. With standard output closed the two lines of the file
  stay in the buffer of the stream: both tests of \<^verbatim>\<open>cout\<close> find it good, nothing is
  reported, the program returns 0, and no line has reached standard output.
\<close>

theorem randomize_order_closed_cout_counterexample:
  "two_line_file ''a'' = Some [''x'', ''y''] \<and>
   randomize_order two_line_file first_draws stays_good nothing_delivered
     [''randomize_order'', ''a''] = \<lparr>exit_status = 0, cout = [], cerr = []\<rparr> \<and>
   mset (cout (randomize_order two_line_file first_draws stays_good nothing_delivered
     [''randomize_order'', ''a''])) \<noteq> mset (input_lines two_line_file [''a''])"
  by (simp add: randomize_order_def two_line_file_def shuffle_two stays_good_def
      nothing_delivered_def input_lines_def)

end
